theory Spec2Isabelle
  imports Main "HOL-Library.AList"
begin

section \<open>Python strings\<close>

text \<open>
  A Python \<^verbatim>\<open>str\<close> is a sequence of Unicode code points. A character is its code point
  (a natural number), a string the list of them. The character classes are the ones of
  CPython 3.11 (Unicode 14.0): \<^verbatim>\<open>str.isspace\<close>, which is also what \<^verbatim>\<open>str.strip()\<close> removes
  and what \<^verbatim>\<open>\s\<close> matches in a \<^verbatim>\<open>str\<close> pattern; \<^verbatim>\<open>str.isdecimal\<close>, which is what \<^verbatim>\<open>\d\<close>
  matches and what \<^verbatim>\<open>int()\<close> accepts as a digit; and \<^verbatim>\<open>str.isdigit\<close>, which adds the
  superscript, subscript and circled digits.
\<close>

type_synonym pychar = nat
type_synonym pystr = "pychar list"

definition LF :: pychar where "LF = 10"
definition CR :: pychar where "CR = 13"
definition LPAREN :: pychar where "LPAREN = 40"
definition RPAREN :: pychar where "RPAREN = 41"

definition isspace :: "pychar \<Rightarrow> bool" where
  "isspace c \<longleftrightarrow>
     (9 \<le> c \<and> c \<le> 13) \<or> (28 \<le> c \<and> c \<le> 32) \<or> c = 133 \<or> c = 160 \<or> c = 5760 \<or>
     (8192 \<le> c \<and> c \<le> 8202) \<or> c = 8232 \<or> c = 8233 \<or> c = 8239 \<or> c = 8287 \<or>
     c = 12288"

text \<open>The code points of the digit zero of every decimal-digit block (general category Nd);
  the nine code points after each are the digits one to nine.\<close>

definition decimal_zeros :: "pychar list" where
  "decimal_zeros =
     [48, 1632, 1776, 1984, 2406, 2534, 2662, 2790, 2918, 3046, 3174, 3302, 3430, 3558,
      3664, 3792, 3872, 4160, 4240, 6112, 6160, 6470, 6608, 6784, 6800, 6992, 7088, 7232,
      7248, 42528, 43216, 43264, 43472, 43504, 43600, 44016, 65296, 66720, 68912, 69734,
      69872, 69942, 70096, 70384, 70736, 70864, 71248, 71360, 71472, 71904, 72016, 72784,
      73040, 73120, 92768, 92864, 93008, 120782, 120792, 120802, 120812, 120822, 123200,
      123632, 125264, 130032]"

definition decimal_value :: "pychar \<Rightarrow> nat option" where
  "decimal_value c =
     (case find (\<lambda>z. z \<le> c \<and> c < z + 10) decimal_zeros of
        None \<Rightarrow> None
      | Some z \<Rightarrow> Some (c - z))"

definition isdecimal :: "pychar \<Rightarrow> bool" where
  "isdecimal c \<longleftrightarrow> decimal_value c \<noteq> None"

text \<open>The ranges of the characters that are digits without being decimal digits.\<close>

definition other_digit_ranges :: "(pychar \<times> pychar) list" where
  "other_digit_ranges =
     [(178, 179), (185, 185), (4969, 4977), (6618, 6618), (8304, 8304), (8308, 8313),
      (8320, 8329), (9312, 9320), (9332, 9340), (9352, 9360), (9450, 9450), (9461, 9469),
      (9471, 9471), (10102, 10110), (10112, 10120), (10122, 10130), (68160, 68163),
      (69216, 69224), (69714, 69722), (127232, 127242)]"

definition isdigit :: "pychar \<Rightarrow> bool" where
  "isdigit c \<longleftrightarrow> isdecimal c \<or> list_ex (\<lambda>(lo, hi). lo \<le> c \<and> c \<le> hi) other_digit_ranges"

text \<open>\<^verbatim>\<open>s.strip()\<close>: whitespace removed at both ends.\<close>

definition lstrip :: "pystr \<Rightarrow> pystr" where
  "lstrip s = dropWhile isspace s"

definition rstrip :: "pystr \<Rightarrow> pystr" where
  "rstrip s = rev (dropWhile isspace (rev s))"

definition strip :: "pystr \<Rightarrow> pystr" where
  "strip s = rstrip (lstrip s)"

text \<open>\<^verbatim>\<open>s.replace(old, new)\<close>: every occurrence of \<open>old\<close>, found from the left and not
  overlapping, is replaced, in one pass. With an empty \<open>old\<close> Python puts \<open>new\<close> before
  every character and at the end.\<close>

function replace :: "pystr \<Rightarrow> pystr \<Rightarrow> pystr \<Rightarrow> pystr" where
  "replace old new [] = (if old = [] then new else [])"
| "replace old new (c # cs) =
     (if old = [] then new @ concat (map (\<lambda>x. x # new) (c # cs))
      else if take (length old) (c # cs) = old
        then new @ replace old new (drop (length old) (c # cs))
      else c # replace old new cs)"
  by pat_completeness auto
termination
proof (relation "measure (\<lambda>(old, new, s). length s)")
  show "wf (measure (\<lambda>(old, new, s). length s))" by simp
next
  fix old new :: pystr and c :: pychar and cs :: pystr
  assume "old \<noteq> []"
  then have "0 < length old" by simp
  then show "((old, new, drop (length old) (c # cs)), old, new, c # cs)
             \<in> measure (\<lambda>(old, new, s). length s)"
    by simp
next
  fix old new :: pystr and c :: pychar and cs :: pystr
  show "((old, new, cs), old, new, c # cs) \<in> measure (\<lambda>(old, new, s). length s)"
    by simp
qed

text \<open>\<^verbatim>\<open>s.startswith(p)\<close>\<close>

definition startswith :: "pystr \<Rightarrow> pystr \<Rightarrow> bool" where
  "startswith s p \<longleftrightarrow> take (length p) s = p"

section \<open>The worksheet\<close>

text \<open>
  The value of a cell is \<^verbatim>\<open>None\<close>, a \<^verbatim>\<open>str\<close>, or another scalar (a number, a date); the
  code only ever takes \<^verbatim>\<open>str()\<close> of the last kind, so \<open>Other\<close> holds that rendering.
  A worksheet gives the value of the cell at a row and a column (both counted from 1)
  and the attributes \<^verbatim>\<open>max_row\<close> and \<^verbatim>\<open>max_column\<close>, which may be missing or \<^verbatim>\<open>None\<close>.
\<close>

datatype cell = NoneValue | Str pystr | Other pystr

record sheet =
  cell_value :: "int \<Rightarrow> int \<Rightarrow> cell"
  max_row :: "int option"
  max_column :: "int option"

text \<open>\<^verbatim>\<open>getattr(sheet, "max_column", 0) or 0\<close>, and the same for rows.\<close>

definition attr_or_0 :: "int option \<Rightarrow> int" where
  "attr_or_0 a = (case a of None \<Rightarrow> 0 | Some n \<Rightarrow> n)"

text \<open>\<^verbatim>\<open>FakeWorksheet\<close>: the worksheet of the self-test, over a list of rows. A cell outside
  the lists is \<^verbatim>\<open>None\<close> (the \<^verbatim>\<open>IndexError\<close> is caught); an index below zero counts from
  the end, as Python's does.\<close>

definition py_index :: "'a list \<Rightarrow> int \<Rightarrow> 'a option" where
  "py_index xs i =
     (if 0 \<le> i \<and> i < int (length xs) then Some (xs ! nat i)
      else if i < 0 \<and> - i \<le> int (length xs) then Some (xs ! nat (int (length xs) + i))
      else None)"

definition FakeWorksheet :: "cell list list \<Rightarrow> sheet" where
  "FakeWorksheet rows =
     \<lparr> cell_value = (\<lambda>row column.
          case py_index rows (row - 1) of
            None \<Rightarrow> NoneValue
          | Some r \<Rightarrow> (case py_index r (column - 1) of None \<Rightarrow> NoneValue | Some v \<Rightarrow> v)),
       max_row = Some (int (length rows)),
       max_column = Some (int (fold max (map length rows) 0)) \<rparr>"

section \<open>Cell normalizer\<close>

definition x000D_LF :: pystr where
  "x000D_LF = [95, 120, 48, 48, 48, 68, 95, 10]"

definition normalize_cell_text :: "pystr \<Rightarrow> pystr" where
  "normalize_cell_text v =
     (let text = replace x000D_LF [LF] v;
          text = replace [CR] [LF] (replace [CR, LF] [LF] text)
      in text)"

text \<open>\<^verbatim>\<open>text.split("\n", 1)[0]\<close>: the text before the first line feed.\<close>

definition first_line :: "pystr \<Rightarrow> pystr" where
  "first_line text = takeWhile (\<lambda>c. c \<noteq> LF) text"

text \<open>\<^verbatim>\<open>re.match(r"^\s*(\d+)", line)\<close> and its group 1. Both repetitions are greedy, and no
  character is whitespace and a decimal digit at once, so backing off the whitespace
  never finds a match the greedy run misses.\<close>

definition match_leading_digits :: "pystr \<Rightarrow> pystr option" where
  "match_leading_digits line =
     (let digits = takeWhile isdecimal (dropWhile isspace line)
      in if digits = [] then None else Some digits)"

definition parse_cell_to_class :: "cell \<Rightarrow> pystr option" where
  "parse_cell_to_class v =
     (case v of
        Str s \<Rightarrow> match_leading_digits (first_line (normalize_cell_text s))
      | _ \<Rightarrow> None)"

section \<open>Errors\<close>

text \<open>The exceptions the code can raise: its own \<^verbatim>\<open>ParseError\<close>, with the message, and
  Python's \<^verbatim>\<open>KeyError\<close> (with the key) and \<^verbatim>\<open>ValueError\<close> (with the text refused by
  \<^verbatim>\<open>int()\<close>). A function that can raise returns \<open>error + 'a\<close>.\<close>

datatype error = ParseError pystr | KeyError pystr | ValueError pystr

text \<open>A \<^verbatim>\<open>for\<close> loop whose body can raise: the first exception ends the loop.\<close>

fun for_each :: "('x \<Rightarrow> 's \<Rightarrow> error + 's) \<Rightarrow> 'x list \<Rightarrow> 's \<Rightarrow> error + 's" where
  "for_each body [] s = Inr s"
| "for_each body (x # xs) s =
     (case body x s of Inl e \<Rightarrow> Inl e | Inr s' \<Rightarrow> for_each body xs s')"

section \<open>Day-block locator\<close>

definition DAYS_ORDER :: "pystr list" where
  "DAYS_ORDER = [[50900], [54868], [49688], [47785], [44552]]"

record DayBlock =
  day :: pystr
  start_col :: int

definition no_day_blocks :: pystr where
  "no_day_blocks = [50836, 51068, 32, 48660, 47197, 51012, 32, 52286, 51012, 32, 49688, 32,
     50630, 49845, 45768, 45796, 46]"

text \<open>The body of the loop over the columns of row 2. A value that is not a \<^verbatim>\<open>str\<close> is
  equal to no element of \<^verbatim>\<open>DAYS_ORDER\<close>.\<close>

definition detect_column :: "sheet \<Rightarrow> int \<Rightarrow> int \<Rightarrow> DayBlock list \<times> pystr set
    \<Rightarrow> DayBlock list \<times> pystr set" where
  "detect_column sh row col st =
     (case st of (day_blocks, seen) \<Rightarrow>
        (case cell_value sh row col of
           Str s \<Rightarrow>
             (let v = strip s
              in if v \<in> set DAYS_ORDER \<and> v \<notin> seen
                 then (day_blocks @ [\<lparr>day = v, start_col = col\<rparr>], insert v seen)
                 else (day_blocks, seen))
         | _ \<Rightarrow> (day_blocks, seen)))"

definition detect_day_blocks :: "sheet \<Rightarrow> error + DayBlock list" where
  "detect_day_blocks sh =
     (let row = 2;
          max_col = attr_or_0 (max_column sh);
          (day_blocks, seen) = fold (detect_column sh row) [1..max_col] ([], {})
      in if day_blocks = [] then Inl (ParseError no_day_blocks) else Inr day_blocks)"

section \<open>Teacher names\<close>

text \<open>
  \<^verbatim>\<open>re.sub(r"\s*\([^)]*\)\s*$", "", name)\<close>. The pattern is matched piece by piece on a
  suffix of the string: \<open>re_dollar\<close> is \<^verbatim>\<open>$\<close> (the end of the string, or just before a line
  feed that ends it), \<open>re_spaces_dollar\<close> is \<^verbatim>\<open>\s*$\<close>, \<open>re_body\<close> is \<^verbatim>\<open>[^)]*\)\s*$\<close> and
  \<open>re_annotation\<close> the whole pattern. Every match runs to the end of the string, since the
  last \<^verbatim>\<open>\s*\<close> is greedy, so \<^verbatim>\<open>re.sub\<close> cuts the string at the leftmost position where
  the pattern matches and leaves it as it is when there is none.
\<close>

definition re_dollar :: "pystr \<Rightarrow> bool" where
  "re_dollar s \<longleftrightarrow> s = [] \<or> s = [LF]"

fun re_spaces_dollar :: "pystr \<Rightarrow> bool" where
  "re_spaces_dollar [] = True"
| "re_spaces_dollar (c # cs) = (re_dollar (c # cs) \<or> isspace c \<and> re_spaces_dollar cs)"

fun re_body :: "pystr \<Rightarrow> bool" where
  "re_body [] = False"
| "re_body (c # cs) = (if c = RPAREN then re_spaces_dollar cs else re_body cs)"

fun re_annotation :: "pystr \<Rightarrow> bool" where
  "re_annotation [] = False"
| "re_annotation (c # cs) =
     (isspace c \<and> re_annotation cs \<or> c = LPAREN \<and> re_body cs)"

fun re_sub_annotation :: "pystr \<Rightarrow> pystr" where
  "re_sub_annotation [] = []"
| "re_sub_annotation (c # cs) =
     (if re_annotation (c # cs) then [] else c # re_sub_annotation cs)"

definition normalize_teacher_name :: "pystr \<Rightarrow> pystr" where
  "normalize_teacher_name raw_name =
     (let name = strip raw_name;
          name = re_sub_annotation name
      in strip name)"

section \<open>Teacher-grid builder\<close>

text \<open>
  The schedule of a teacher is a dictionary from the day to a dictionary from the period
  to the class code or \<^verbatim>\<open>None\<close>; the result of the builder is a dictionary from the
  teacher's name to the schedule. The inner dictionaries are maps; the outer one keeps
  the order in which the keys were inserted, which is the order \<^verbatim>\<open>items()\<close> gives, so it
  is a list of pairs with \<open>AList.update\<close> for the assignment to a key.
\<close>

type_synonym periods = "int \<rightharpoonup> pystr option"
type_synonym schedule = "pystr \<rightharpoonup> periods"
type_synonym teachers = "(pystr \<times> schedule) list"

text \<open>\<^verbatim>\<open>str(teacher_cell)\<close>.\<close>

definition str_of_cell :: "cell \<Rightarrow> pystr" where
  "str_of_cell v = (case v of NoneValue \<Rightarrow> [78, 111, 110, 101] | Str s \<Rightarrow> s | Other r \<Rightarrow> r)"

text \<open>\<^verbatim>\<open>{day: {p: None for p in range(1, 8)} for day in DAYS_ORDER}\<close>\<close>

definition empty_periods :: periods where
  "empty_periods = fold (\<lambda>p m. m(p \<mapsto> None)) [1..7] Map.empty"

definition empty_schedule :: schedule where
  "empty_schedule = fold (\<lambda>d m. m(d \<mapsto> empty_periods)) DAYS_ORDER Map.empty"

text \<open>The body of the loop over the periods: \<^verbatim>\<open>data[teacher_name][block.day][period] =
  class_code\<close>. The two subscriptions raise \<^verbatim>\<open>KeyError\<close> on a missing key.\<close>

definition store_cell :: "sheet \<Rightarrow> int \<Rightarrow> pystr \<Rightarrow> DayBlock \<Rightarrow> int \<Rightarrow> teachers
    \<Rightarrow> error + teachers" where
  "store_cell sh row teacher_name block period dat =
     (let col = start_col block + period - 1;
          v = cell_value sh row col;
          class_code = parse_cell_to_class v
      in case map_of dat teacher_name of
           None \<Rightarrow> Inl (KeyError teacher_name)
         | Some sched \<Rightarrow>
             (case sched (day block) of
                None \<Rightarrow> Inl (KeyError (day block))
              | Some ps \<Rightarrow>
                  Inr (AList.update teacher_name
                         (sched(day block \<mapsto> ps(period \<mapsto> class_code))) dat)))"

definition parse_row :: "sheet \<Rightarrow> DayBlock list \<Rightarrow> int \<Rightarrow> teachers \<Rightarrow> error + teachers" where
  "parse_row sh day_blocks row dat =
     (let teacher_cell = cell_value sh row 1
      in if teacher_cell = NoneValue then Inr dat
         else if (case teacher_cell of Str s \<Rightarrow> strip s = [] | _ \<Rightarrow> False) then Inr dat
         else
           (let teacher_name = normalize_teacher_name (str_of_cell teacher_cell)
            in if teacher_name = [] then Inr dat
               else
                 (let dat' = (case map_of dat teacher_name of
                                None \<Rightarrow> AList.update teacher_name empty_schedule dat
                              | Some _ \<Rightarrow> dat)
                  in for_each
                       (\<lambda>block. for_each (store_cell sh row teacher_name block) [1..7])
                       day_blocks dat')))"

definition parse_teacher_rows :: "sheet \<Rightarrow> DayBlock list \<Rightarrow> error + teachers" where
  "parse_teacher_rows sh day_blocks =
     (let max_row = attr_or_0 (max_row sh)
      in for_each (parse_row sh day_blocks) [4..max_row] [])"

section \<open>Rendering\<close>

text \<open>\<^verbatim>\<open>str(n)\<close> for an integer, and \<^verbatim>\<open>sep.join(xs)\<close>.\<close>

fun str_nat :: "nat \<Rightarrow> pystr" where
  "str_nat n = (if n < 10 then [48 + n] else str_nat (n div 10) @ [48 + n mod 10])"

definition str_int :: "int \<Rightarrow> pystr" where
  "str_int i = (if i < 0 then 45 # str_nat (nat (- i)) else str_nat (nat i))"

fun join :: "pystr \<Rightarrow> pystr list \<Rightarrow> pystr" where
  "join sep [] = []"
| "join sep [x] = x"
| "join sep (x # y # ys) = x @ sep @ join sep (y # ys)"

text \<open>\<^verbatim>\<open>int(s)\<close> where every character of \<open>s\<close> is a digit (\<^verbatim>\<open>isdigit()\<close>, the guard of its only
  call, leaves no sign, underscore or whitespace): the number when every character is a
  decimal digit, \<^verbatim>\<open>ValueError\<close> otherwise.\<close>

fun decimal_digits :: "pystr \<Rightarrow> nat \<Rightarrow> nat option" where
  "decimal_digits [] n = Some n"
| "decimal_digits (c # cs) n =
     (case decimal_value c of None \<Rightarrow> None | Some v \<Rightarrow> decimal_digits cs (10 * n + v))"

definition py_int :: "pystr \<Rightarrow> error + int" where
  "py_int s =
     (case (if s = [] then None else decimal_digits s 0) of
        None \<Rightarrow> Inl (ValueError s)
      | Some n \<Rightarrow> Inr (int n))"

definition format_class_code :: "pystr \<Rightarrow> error + pystr" where
  "format_class_code code =
     (if length code = 3 \<and> list_all isdigit code
      then
        (let grade = take 1 code
         in case py_int (drop 1 code) of
              Inl e \<Rightarrow> Inl e
            | Inr class_no \<Rightarrow>
                Inr (grade @ [54617, 45380, 32] @ str_int class_no @ [48152, 40] @ code @ [41]))
      else Inr ([40] @ code @ [41]))"

section \<open>Pattern analyzer\<close>

text \<open>
  The messages are f-strings; a message is kept as the pattern it belongs to and the
  values put into the text, in their order, the fixed text between them left out.
  A Pattern-A match of the summary is the dictionary with the keys \<^verbatim>\<open>day\<close>, \<^verbatim>\<open>start\<close>,
  \<^verbatim>\<open>end\<close> and \<^verbatim>\<open>class_code\<close>, kept as the tuple of the four values, which is also the
  key put into \<^verbatim>\<open>seen_a\<close>.
\<close>

datatype message =
    PatternA_message pystr pystr int int pystr
  | PatternB_message pystr nat int pystr pystr
  | PatternC_message pystr nat int pystr

type_synonym a_match = "pystr \<times> int \<times> int \<times> pystr"

record pattern_days =
  triggered :: bool
  days :: "pystr list"

record teacher_summary =
  patternA :: "a_match list"
  patternB :: pattern_days
  patternC :: pattern_days

text \<open>
  The variables of a run of \<^verbatim>\<open>analyze_patterns\<close>: the dictionary it was given, the two
  dictionaries it builds, the variables of the loop over the teachers, and the exception
  raised, if any. The run is a sequence of steps on this frame; a step after an
  exception does nothing. The loop variables \<^verbatim>\<open>teacher\<close> and \<^verbatim>\<open>day_map\<close> refer to an item
  of \<open>data\<close>: a step gets the position of the item and reads it from the frame.
\<close>

record frame =
  data :: teachers
  messages :: "(pystr \<times> message list) list"
  summary :: "(pystr \<times> teacher_summary) list"
  teacher_msgs :: "message list"
  teacher_summary :: teacher_summary
  seen_a :: "a_match set"
  matched_days :: "pystr list"
  raised :: "error option"

definition unless_raised :: "(frame \<Rightarrow> frame) \<Rightarrow> frame \<Rightarrow> frame" where
  "unless_raised step fr = (if raised fr = None then step fr else fr)"

definition teacher_at :: "frame \<Rightarrow> nat \<Rightarrow> pystr" where
  "teacher_at fr i = fst (data fr ! i)"

definition day_map_at :: "frame \<Rightarrow> nat \<Rightarrow> schedule" where
  "day_map_at fr i = snd (data fr ! i)"

text \<open>\<^verbatim>\<open>day_map.get(day, {})\<close> and \<^verbatim>\<open>periods.get(p)\<close>\<close>

definition day_map_get :: "schedule \<Rightarrow> pystr \<Rightarrow> periods" where
  "day_map_get day_map d = (case day_map d of None \<Rightarrow> Map.empty | Some ps \<Rightarrow> ps)"

definition periods_get :: "periods \<Rightarrow> int \<Rightarrow> pystr option" where
  "periods_get ps p = (case ps p of None \<Rightarrow> None | Some v \<Rightarrow> v)"

text \<open>Pattern A: the body of the loop over the start periods.\<close>

definition pattern_a_start :: "nat \<Rightarrow> int \<Rightarrow> pystr \<Rightarrow> int \<Rightarrow> frame \<Rightarrow> frame" where
  "pattern_a_start i consecutive_len d start =
     unless_raised (\<lambda>fr.
       let ps = day_map_get (day_map_at fr i) d;
           window = map (periods_get ps) [start..start + consecutive_len - 1]
       in if list_ex (\<lambda>code. code = None) window then fr
          else if length (remdups window) = 1 then
            (case window of
               Some class_code # _ \<Rightarrow>
                 (let key = (d, start, start + consecutive_len - 1, class_code)
                  in if key \<in> seen_a fr then fr
                     else
                       (let fr = fr\<lparr>seen_a := insert key (seen_a fr)\<rparr>
                        in case format_class_code class_code of
                             Inl e \<Rightarrow> fr\<lparr>raised := Some e\<rparr>
                           | Inr class_text \<Rightarrow>
                               fr\<lparr>teacher_msgs := teacher_msgs fr @
                                     [PatternA_message (teacher_at fr i) d start
                                        (start + consecutive_len - 1) class_text],
                                   teacher_summary := (teacher_summary fr)
                                     \<lparr>patternA := patternA (teacher_summary fr) @ [key]\<rparr>\<rparr>))
             | _ \<Rightarrow> fr)
          else fr)"

definition pattern_a_day :: "nat \<Rightarrow> int \<Rightarrow> pystr \<Rightarrow> frame \<Rightarrow> frame" where
  "pattern_a_day i consecutive_len d fr =
     (let max_start = 7 - consecutive_len + 1
      in fold (pattern_a_start i consecutive_len d) [1..max_start] fr)"

definition pattern_a :: "nat \<Rightarrow> int \<Rightarrow> frame \<Rightarrow> frame" where
  "pattern_a i consecutive_len fr =
     fold (pattern_a_day i consecutive_len) DAYS_ORDER (fr\<lparr>seen_a := {}\<rparr>)"

text \<open>Pattern B.\<close>

definition pattern_b_day :: "nat \<Rightarrow> int list \<Rightarrow> pystr \<Rightarrow> frame \<Rightarrow> frame" where
  "pattern_b_day i target_periods d fr =
     (let ps = day_map_get (day_map_at fr i) d
      in if list_all (\<lambda>p. periods_get ps p \<noteq> None) target_periods
         then fr\<lparr>matched_days := matched_days fr @ [d]\<rparr> else fr)"

definition pattern_b :: "nat \<Rightarrow> int list \<Rightarrow> int \<Rightarrow> frame \<Rightarrow> frame" where
  "pattern_b i target_periods min_days =
     unless_raised (\<lambda>fr.
       let fr = fold (pattern_b_day i target_periods) DAYS_ORDER (fr\<lparr>matched_days := []\<rparr>)
       in if min_days \<le> int (length (matched_days fr)) then
            (let days_text = join [44] (matched_days fr);
                 periods_text = join [44] (map str_int target_periods)
             in fr\<lparr>teacher_msgs := teacher_msgs fr @
                    [PatternB_message (teacher_at fr i) (length DAYS_ORDER) min_days
                       periods_text days_text],
                  teacher_summary := (teacher_summary fr)
                    \<lparr>patternB := \<lparr>triggered = True, days = matched_days fr\<rparr>\<rparr>\<rparr>)
          else fr)"

text \<open>Pattern C.\<close>

definition pattern_c_day :: "nat \<Rightarrow> pystr \<Rightarrow> frame \<Rightarrow> frame" where
  "pattern_c_day i d fr =
     (let ps = day_map_get (day_map_at fr i) d
      in if periods_get ps 7 \<noteq> None
         then fr\<lparr>matched_days := matched_days fr @ [d]\<rparr> else fr)"

definition pattern_c :: "nat \<Rightarrow> int \<Rightarrow> bool \<Rightarrow> frame \<Rightarrow> frame" where
  "pattern_c i min_days check_period7 =
     unless_raised (\<lambda>fr.
       if check_period7 then
         (let fr = fold (pattern_c_day i) DAYS_ORDER (fr\<lparr>matched_days := []\<rparr>)
          in if min_days \<le> int (length (matched_days fr)) then
               (let days_text = join [44] (matched_days fr)
                in fr\<lparr>teacher_msgs := teacher_msgs fr @
                       [PatternC_message (teacher_at fr i) (length DAYS_ORDER) min_days
                          days_text],
                     teacher_summary := (teacher_summary fr)
                       \<lparr>patternC := \<lparr>triggered = True, days = matched_days fr\<rparr>\<rparr>\<rparr>)
             else fr)
       else fr)"

text \<open>The end of the body of the loop over the teachers.\<close>

definition collect :: "nat \<Rightarrow> frame \<Rightarrow> frame" where
  "collect i =
     unless_raised (\<lambda>fr.
       let fr = (if teacher_msgs fr \<noteq> []
                 then fr\<lparr>messages := AList.update (teacher_at fr i) (teacher_msgs fr)
                                       (messages fr)\<rparr>
                 else fr)
       in fr\<lparr>summary := AList.update (teacher_at fr i) (teacher_summary fr) (summary fr)\<rparr>)"

definition new_summary :: teacher_summary where
  "new_summary =
     \<lparr>patternA = [],
      patternB = \<lparr>triggered = False, days = []\<rparr>,
      patternC = \<lparr>triggered = False, days = []\<rparr>\<rparr>"

definition analyze_teacher :: "int \<Rightarrow> int list \<Rightarrow> int \<Rightarrow> bool \<Rightarrow> nat \<Rightarrow> frame \<Rightarrow> frame" where
  "analyze_teacher consecutive_len target_periods min_days check_period7 i =
     unless_raised (\<lambda>fr.
       let fr = fr\<lparr>teacher_msgs := [], teacher_summary := new_summary\<rparr>;
           fr = pattern_a i consecutive_len fr;
           fr = pattern_b i target_periods min_days fr;
           fr = pattern_c i min_days check_period7 fr
       in collect i fr)"

definition new_frame :: "teachers \<Rightarrow> frame" where
  "new_frame dat =
     \<lparr>data = dat, messages = [], summary = [], teacher_msgs = [],
      teacher_summary = new_summary, seen_a = {}, matched_days = [], raised = None\<rparr>"

definition run_analyze_patterns :: "teachers \<Rightarrow> int \<Rightarrow> int list \<Rightarrow> int \<Rightarrow> bool \<Rightarrow> frame" where
  "run_analyze_patterns dat consecutive_len target_periods min_days check_period7 =
     fold (analyze_teacher consecutive_len target_periods min_days check_period7)
       [0..<length dat] (new_frame dat)"

text \<open>\<^verbatim>\<open>analyze_patterns\<close> returns the two dictionaries, or raises.\<close>

definition analyze_patterns :: "teachers \<Rightarrow> int \<Rightarrow> int list \<Rightarrow> int \<Rightarrow> bool
    \<Rightarrow> error + (pystr \<times> message list) list \<times> (pystr \<times> teacher_summary) list" where
  "analyze_patterns dat consecutive_len target_periods min_days check_period7 =
     (let fr = run_analyze_patterns dat consecutive_len target_periods min_days check_period7
      in case raised fr of
           Some e \<Rightarrow> Inl e
         | None \<Rightarrow> Inr (messages fr, summary fr))"

section \<open>What the loops of the analyzer compute\<close>

text \<open>
  The days a teacher has a class in every target period, and in period 7; the class code
  of the window of \<open>n\<close> periods from \<open>s\<close> when none of them is \<^verbatim>\<open>None\<close> and all are the
  same; the Pattern-A matches of a day and of the week. The loops are proved to compute
  these below.
\<close>

definition qualifying_days :: "schedule \<Rightarrow> int list \<Rightarrow> pystr list" where
  "qualifying_days day_map target_periods =
     filter (\<lambda>d. list_all (\<lambda>p. periods_get (day_map_get day_map d) p \<noteq> None) target_periods)
       DAYS_ORDER"

definition period7_days :: "schedule \<Rightarrow> pystr list" where
  "period7_days day_map =
     filter (\<lambda>d. periods_get (day_map_get day_map d) 7 \<noteq> None) DAYS_ORDER"

definition window_code :: "periods \<Rightarrow> int \<Rightarrow> int \<Rightarrow> pystr option" where
  "window_code ps n s =
     (case map (periods_get ps) [s..s + n - 1] of
        [] \<Rightarrow> None
      | c # cs \<Rightarrow> if c \<noteq> None \<and> list_all (\<lambda>x. x = c) cs then c else None)"

definition day_matches :: "schedule \<Rightarrow> int \<Rightarrow> pystr \<Rightarrow> a_match list" where
  "day_matches day_map n d =
     List.map_filter
       (\<lambda>s. map_option (\<lambda>c. (d, s, s + n - 1, c)) (window_code (day_map_get day_map d) n s))
       [1..7 - n + 1]"

definition a_matches :: "schedule \<Rightarrow> int \<Rightarrow> a_match list" where
  "a_matches day_map n = concat (map (day_matches day_map n) DAYS_ORDER)"

definition class_text :: "pystr \<Rightarrow> pystr" where
  "class_text code = (case format_class_code code of Inl e \<Rightarrow> [] | Inr t \<Rightarrow> t)"

definition a_message :: "pystr \<Rightarrow> a_match \<Rightarrow> message" where
  "a_message teacher m =
     (case m of (d, s, e, c) \<Rightarrow> PatternA_message teacher d s e (class_text c))"

definition add_matches :: "pystr \<Rightarrow> a_match list \<Rightarrow> frame \<Rightarrow> frame" where
  "add_matches teacher ms fr =
     fr\<lparr>seen_a := seen_a fr \<union> set ms,
        teacher_msgs := teacher_msgs fr @ map (a_message teacher) ms,
        teacher_summary := (teacher_summary fr)
          \<lparr>patternA := patternA (teacher_summary fr) @ ms\<rparr>\<rparr>"

text \<open>The summary and the messages of one teacher, in closed form.\<close>

definition summary_of :: "schedule \<Rightarrow> int \<Rightarrow> int list \<Rightarrow> int \<Rightarrow> bool \<Rightarrow> teacher_summary" where
  "summary_of day_map n target_periods min_days check_period7 =
     \<lparr>patternA = a_matches day_map n,
      patternB =
        (if min_days \<le> int (length (qualifying_days day_map target_periods))
         then \<lparr>triggered = True, days = qualifying_days day_map target_periods\<rparr>
         else \<lparr>triggered = False, days = []\<rparr>),
      patternC =
        (if check_period7 \<and> min_days \<le> int (length (period7_days day_map))
         then \<lparr>triggered = True, days = period7_days day_map\<rparr>
         else \<lparr>triggered = False, days = []\<rparr>)\<rparr>"

definition b_message :: "pystr \<Rightarrow> schedule \<Rightarrow> int list \<Rightarrow> int \<Rightarrow> message" where
  "b_message teacher day_map target_periods min_days =
     PatternB_message teacher (length DAYS_ORDER) min_days
       (join [44] (map str_int target_periods))
       (join [44] (qualifying_days day_map target_periods))"

definition c_message :: "pystr \<Rightarrow> schedule \<Rightarrow> int \<Rightarrow> message" where
  "c_message teacher day_map min_days =
     PatternC_message teacher (length DAYS_ORDER) min_days (join [44] (period7_days day_map))"

definition messages_of :: "pystr \<Rightarrow> schedule \<Rightarrow> int \<Rightarrow> int list \<Rightarrow> int \<Rightarrow> bool
    \<Rightarrow> message list" where
  "messages_of teacher day_map n target_periods min_days check_period7 =
     map (a_message teacher) (a_matches day_map n) @
     (if min_days \<le> int (length (qualifying_days day_map target_periods))
      then [b_message teacher day_map target_periods min_days] else []) @
     (if check_period7 \<and> min_days \<le> int (length (period7_days day_map))
      then [c_message teacher day_map min_days] else [])"

text \<open>No Pattern-A match of the schedule has a class code that \<open>format_class_code\<close>
  refuses.\<close>

definition formats :: "schedule \<Rightarrow> int \<Rightarrow> bool" where
  "formats day_map n =
     list_all (\<lambda>m. \<not> isl (format_class_code (snd (snd (snd m))))) (a_matches day_map n)"

text \<open>The messages of a teacher in the findings (none when the teacher is not a key), and
  the messages of Pattern A and of Pattern B.\<close>

definition messages_for :: "(pystr \<times> message list) list \<Rightarrow> pystr \<Rightarrow> message list" where
  "messages_for msgs teacher = (case map_of msgs teacher of None \<Rightarrow> [] | Some ms \<Rightarrow> ms)"

definition is_PatternA :: "message \<Rightarrow> bool" where
  "is_PatternA msg = (case msg of PatternA_message t d s e c \<Rightarrow> True | _ \<Rightarrow> False)"

definition is_PatternB :: "message \<Rightarrow> bool" where
  "is_PatternB msg = (case msg of PatternB_message t k m ps ds \<Rightarrow> True | _ \<Rightarrow> False)"

text \<open>Every class code of the schedules, on the five days and the seven periods, is a
  non-empty string of decimal digits, as the cell normalizer gives them.\<close>

definition decimal_code :: "pystr option \<Rightarrow> bool" where
  "decimal_code v = (case v of None \<Rightarrow> True | Some c \<Rightarrow> c \<noteq> [] \<and> list_all isdecimal c)"

definition decimal_codes :: "schedule \<Rightarrow> bool" where
  "decimal_codes day_map =
     list_all (\<lambda>d. list_all (\<lambda>p. decimal_code (periods_get (day_map_get day_map d) p)) [1..7])
       DAYS_ORDER"

section \<open>What the loops of the locator and of the builder compute\<close>

text \<open>The cell holds a weekday label: a string that is an element of \<^verbatim>\<open>DAYS_ORDER\<close> once
  stripped.\<close>

definition weekday_label :: "sheet \<Rightarrow> int \<Rightarrow> int \<Rightarrow> bool" where
  "weekday_label sh row col =
     (case cell_value sh row col of Str s \<Rightarrow> strip s \<in> set DAYS_ORDER | _ \<Rightarrow> False)"

text \<open>The seven cells of a block written over the periods of its day, and the blocks of a
  row written over a schedule.\<close>

definition fill_block :: "sheet \<Rightarrow> int \<Rightarrow> DayBlock \<Rightarrow> periods \<Rightarrow> periods" where
  "fill_block sh row b ps =
     fold (\<lambda>p m. m(p \<mapsto> parse_cell_to_class (cell_value sh row (start_col b + p - 1))))
       [1..7] ps"

definition fill_row :: "sheet \<Rightarrow> int \<Rightarrow> DayBlock list \<Rightarrow> schedule \<Rightarrow> schedule" where
  "fill_row sh row bl sched =
     fold (\<lambda>b s. case s (day b) of None \<Rightarrow> s | Some ps \<Rightarrow> s(day b \<mapsto> fill_block sh row b ps))
       bl sched"

text \<open>The teacher of a row, or \<^verbatim>\<open>None\<close> for a row the builder skips.\<close>

definition row_teacher :: "sheet \<Rightarrow> int \<Rightarrow> pystr option" where
  "row_teacher sh row =
     (let teacher_cell = cell_value sh row 1
      in if teacher_cell = NoneValue then None
         else if (case teacher_cell of Str s \<Rightarrow> strip s = [] | _ \<Rightarrow> False) then None
         else if normalize_teacher_name (str_of_cell teacher_cell) = [] then None
         else Some (normalize_teacher_name (str_of_cell teacher_cell)))"

text \<open>A schedule with the five days and, for each, the seven periods, every entry
  \<^verbatim>\<open>None\<close> or a non-empty string of decimal digits.\<close>

definition full_schedule :: "schedule \<Rightarrow> bool" where
  "full_schedule sched \<longleftrightarrow>
     dom sched = set DAYS_ORDER \<and>
     (\<forall>d ps. sched d = Some ps \<longrightarrow>
        dom ps = {1..7} \<and> (\<forall>p v. ps p = Some v \<longrightarrow> decimal_code v))"

section \<open>An example\<close>

text \<open>One teacher, with class 101 in the periods 1 and 2 of the first day.\<close>

definition example_schedule :: schedule where
  "example_schedule =
     empty_schedule([50900] \<mapsto> empty_periods(1 \<mapsto> Some [49, 48, 49], 2 \<mapsto> Some [49, 48, 49]))"

definition example_teachers :: teachers where
  "example_teachers = [([65], example_schedule)]"

text \<open>A worksheet with the first weekday in column 2 of row 2 and one teacher in row 4,
  and a worksheet with no row.\<close>

definition example_sheet :: sheet where
  "example_sheet =
     FakeWorksheet [[], [NoneValue, Str [50900]], [], [Str [65], Str [49, 48, 49]]]"

definition empty_sheet :: sheet where
  "empty_sheet = FakeWorksheet []"






section \<open>Properties of the string operations\<close>

lemma isdecimal_iff:
  "isdecimal c \<longleftrightarrow> (\<exists>z \<in> set decimal_zeros. z \<le> c \<and> c < z + 10)"
  by (auto simp: isdecimal_def decimal_value_def find_None_iff find_Some_iff
      split: option.splits)

lemma isspace_cases:
  "isspace c \<Longrightarrow>
   c \<in> {9, 10, 11, 12, 13, 28, 29, 30, 31, 32, 133, 160, 5760, 8192, 8193, 8194, 8195, 8196,
        8197, 8198, 8199, 8200, 8201, 8202, 8232, 8233, 8239, 8287, 12288}"
  unfolding isspace_def by (elim disjE conjE) (simp_all, arith+)

lemma spaces_not_decimal:
  "\<forall>c \<in> {9, 10, 11, 12, 13, 28, 29, 30, 31, 32, 133, 160, 5760, 8192, 8193, 8194, 8195, 8196,
        8197, 8198, 8199, 8200, 8201, 8202, 8232, 8233, 8239, 8287, 12288}. \<not> isdecimal c"
  by (simp add: isdecimal_def decimal_value_def decimal_zeros_def)

lemma isdecimal_not_isspace: "isdecimal c \<Longrightarrow> \<not> isspace c"
  using isspace_cases [of c] spaces_not_decimal by blast

lemma isdecimal_isdigit: "isdecimal c \<Longrightarrow> isdigit c"
  by (simp add: isdigit_def)

lemma replace_no_char:
  assumes "c \<notin> set new"
  shows "c \<notin> set (replace [c] new s)"
  using assms by (induction s) auto

lemma CR_notin_normalize_cell_text: "CR \<notin> set (normalize_cell_text s)"
  unfolding normalize_cell_text_def Let_def
  by (rule replace_no_char) (simp add: CR_def LF_def)

lemma match_leading_digits_range:
  "match_leading_digits line = Some code \<Longrightarrow> code \<noteq> [] \<and> list_all isdecimal code"
  by (auto simp: match_leading_digits_def Let_def list_all_iff split: if_splits
      dest: set_takeWhileD)

lemma dropWhile_isspace_append:
  "list_all isspace ws \<Longrightarrow> dropWhile isspace (ws @ r) = dropWhile isspace r"
  by (induction ws) auto

lemma match_leading_digits_Some:
  assumes "list_all isspace ws" and "ds \<noteq> []" and "list_all isdecimal ds"
    and "rest = [] \<or> \<not> isdecimal (hd rest)"
  shows "match_leading_digits (ws @ ds @ rest) = Some ds"
proof -
  from assms(2,3) have "\<not> isspace (hd ds)"
    by (cases ds) (auto dest: isdecimal_not_isspace)
  with assms(2) have "dropWhile isspace (ds @ rest) = ds @ rest"
    by (cases ds) auto
  with assms(1) have d: "dropWhile isspace (ws @ ds @ rest) = ds @ rest"
    by (simp add: dropWhile_isspace_append)
  from assms(3,4) have "takeWhile isdecimal (ds @ rest) = ds"
    by (cases rest) (auto simp: list_all_iff takeWhile_append2)
  with d assms(2) show ?thesis
    by (simp add: match_leading_digits_def)
qed

lemma match_leading_digits_None:
  assumes "list_all isspace ws" and "rest = [] \<or> \<not> isdecimal (hd rest) \<and> \<not> isspace (hd rest)"
  shows "match_leading_digits (ws @ rest) = None"
proof -
  from assms(2) have "takeWhile isdecimal (dropWhile isspace rest) = []"
    by (cases rest) auto
  with assms(1) show ?thesis
    by (simp add: match_leading_digits_def dropWhile_isspace_append)
qed

section \<open>The analyzer only reads its input\<close>

lemma fold_keeps:
  assumes "\<And>x s. g (f x s) = g s"
  shows "g (fold f xs s) = g s"
  by (induction xs arbitrary: s) (simp_all add: assms)

lemma data_pattern_a_start [simp]: "data (pattern_a_start i n d s fr) = data fr"
  by (simp add: pattern_a_start_def unless_raised_def Let_def
      split: list.split option.split sum.split)

lemma data_pattern_a_day [simp]: "data (pattern_a_day i n d fr) = data fr"
  unfolding pattern_a_day_def Let_def by (rule fold_keeps) simp

lemma data_pattern_a [simp]: "data (pattern_a i n fr) = data fr"
proof -
  have "data (pattern_a i n fr) = data (fr\<lparr>seen_a := {}\<rparr>)"
    unfolding pattern_a_def by (rule fold_keeps) simp
  then show ?thesis by simp
qed

lemma data_pattern_b_day [simp]: "data (pattern_b_day i tp d fr) = data fr"
  by (simp add: pattern_b_day_def Let_def)

lemma data_fold_pattern_b_day [simp]: "data (fold (pattern_b_day i tp) ds fr) = data fr"
  by (rule fold_keeps) simp

lemma data_pattern_b [simp]: "data (pattern_b i tp m fr) = data fr"
  by (simp add: pattern_b_def unless_raised_def Let_def)

lemma data_pattern_c_day [simp]: "data (pattern_c_day i d fr) = data fr"
  by (simp add: pattern_c_day_def Let_def)

lemma data_fold_pattern_c_day [simp]: "data (fold (pattern_c_day i) ds fr) = data fr"
  by (rule fold_keeps) simp

lemma data_pattern_c [simp]: "data (pattern_c i m c7 fr) = data fr"
  by (simp add: pattern_c_def unless_raised_def Let_def)

lemma data_collect [simp]: "data (collect i fr) = data fr"
  by (simp add: collect_def unless_raised_def Let_def)

lemma data_analyze_teacher [simp]: "data (analyze_teacher n tp m c7 i fr) = data fr"
  by (simp add: analyze_teacher_def unless_raised_def Let_def)

lemma data_run_analyze_patterns: "data (run_analyze_patterns dat n tp m c7) = dat"
proof -
  have "data (run_analyze_patterns dat n tp m c7) = data (new_frame dat)"
    unfolding run_analyze_patterns_def by (rule fold_keeps) simp
  then show ?thesis by (simp add: new_frame_def)
qed

section \<open>The loops of the analyzer\<close>

lemma day_map_at_simps [simp]:
  "day_map_at (fr\<lparr>matched_days := a\<rparr>) i = day_map_at fr i"
  "day_map_at (fr\<lparr>seen_a := b\<rparr>) i = day_map_at fr i"
  "day_map_at (fr\<lparr>teacher_msgs := c\<rparr>) i = day_map_at fr i"
  "day_map_at (fr\<lparr>teacher_summary := e\<rparr>) i = day_map_at fr i"
  "day_map_at (fr\<lparr>messages := f\<rparr>) i = day_map_at fr i"
  "day_map_at (fr\<lparr>summary := g\<rparr>) i = day_map_at fr i"
  "day_map_at (fr\<lparr>raised := h\<rparr>) i = day_map_at fr i"
  by (simp_all add: day_map_at_def)

lemma teacher_at_simps [simp]:
  "teacher_at (fr\<lparr>matched_days := a\<rparr>) i = teacher_at fr i"
  "teacher_at (fr\<lparr>seen_a := b\<rparr>) i = teacher_at fr i"
  "teacher_at (fr\<lparr>teacher_msgs := c\<rparr>) i = teacher_at fr i"
  "teacher_at (fr\<lparr>teacher_summary := e\<rparr>) i = teacher_at fr i"
  "teacher_at (fr\<lparr>messages := f\<rparr>) i = teacher_at fr i"
  "teacher_at (fr\<lparr>summary := g\<rparr>) i = teacher_at fr i"
  "teacher_at (fr\<lparr>raised := h\<rparr>) i = teacher_at fr i"
  by (simp_all add: teacher_at_def)

lemma fold_pattern_b_day:
  "fold (pattern_b_day i tp) ds fr =
   fr\<lparr>matched_days := matched_days fr @
      filter (\<lambda>d. list_all (\<lambda>p. periods_get (day_map_get (day_map_at fr i) d) p \<noteq> None) tp) ds\<rparr>"
  by (induction ds arbitrary: fr) (simp_all add: pattern_b_day_def Let_def)

lemma fold_pattern_c_day:
  "fold (pattern_c_day i) ds fr =
   fr\<lparr>matched_days := matched_days fr @
      filter (\<lambda>d. periods_get (day_map_get (day_map_at fr i) d) 7 \<noteq> None) ds\<rparr>"
  by (induction ds arbitrary: fr) (simp_all add: pattern_c_day_def Let_def)

lemma length_remdups_Cons_one:
  "length (remdups (c # cs)) = 1 \<longleftrightarrow> list_all (\<lambda>x. x = c) cs"
proof -
  have "length (remdups (c # cs)) = card (insert c (set cs))"
    by (metis length_remdups_card_conv list.simps(15))
  also have "\<dots> = 1 \<longleftrightarrow> set cs \<subseteq> {c}"
    by (auto simp: card_1_singleton_iff subset_singleton_iff)
  finally show ?thesis by (auto simp: list_all_iff)
qed

lemma window_cases:
  "(if list_ex (\<lambda>c. c = None) w then A
    else if length (remdups w) = 1
      then (case w of Some c # x \<Rightarrow> F c | _ \<Rightarrow> A) else A) =
   (case (case w of [] \<Rightarrow> None
          | c # cs \<Rightarrow> if c \<noteq> None \<and> list_all (\<lambda>x. x = c) cs then c else None) of
      None \<Rightarrow> A | Some c \<Rightarrow> F c)"
proof (cases w)
  case Nil
  then show ?thesis by simp
next
  case (Cons c cs)
  show ?thesis
  proof (cases c)
    case None
    with Cons show ?thesis by simp
  next
    case (Some a)
    with Cons show ?thesis
      by (simp only: length_remdups_Cons_one) (auto simp: list_all_iff list_ex_iff)
  qed
qed

lemma add_matches_Nil [simp]: "add_matches t [] fr = fr"
  by (simp add: add_matches_def)

lemma add_matches_append:
  "add_matches t ys (add_matches t xs fr) = add_matches t (xs @ ys) fr"
  by (simp add: add_matches_def Un_assoc)

lemma add_matches_fields [simp]:
  "raised (add_matches t ms fr) = raised fr"
  "data (add_matches t ms fr) = data fr"
  "seen_a (add_matches t ms fr) = seen_a fr \<union> set ms"
  "messages (add_matches t ms fr) = messages fr"
  "summary (add_matches t ms fr) = summary fr"
  "matched_days (add_matches t ms fr) = matched_days fr"
  "teacher_msgs (add_matches t ms fr) = teacher_msgs fr @ map (a_message t) ms"
  "patternA (teacher_summary (add_matches t ms fr)) = patternA (teacher_summary fr) @ ms"
  "patternB (teacher_summary (add_matches t ms fr)) = patternB (teacher_summary fr)"
  "patternC (teacher_summary (add_matches t ms fr)) = patternC (teacher_summary fr)"
  "day_map_at (add_matches t ms fr) i = day_map_at fr i"
  "teacher_at (add_matches t ms fr) i = teacher_at fr i"
  by (simp_all add: add_matches_def)

lemma pattern_a_start_eq:
  assumes "raised fr = None"
  shows "pattern_a_start i n d s fr =
    (case window_code (day_map_get (day_map_at fr i) d) n s of
       None \<Rightarrow> fr
     | Some c \<Rightarrow>
         if (d, s, s + n - 1, c) \<in> seen_a fr then fr
         else (case format_class_code c of
                 Inl e \<Rightarrow> fr\<lparr>seen_a := insert (d, s, s + n - 1, c) (seen_a fr), raised := Some e\<rparr>
               | Inr t \<Rightarrow> add_matches (teacher_at fr i) [(d, s, s + n - 1, c)] fr))"
  unfolding pattern_a_start_def unless_raised_def window_code_def Let_def
  apply (simp only: assms if_True)
  apply (subst window_cases)
  apply (simp add: add_matches_def a_message_def class_text_def
      split: option.split sum.split)
  done

lemma pattern_a_start_add:
  assumes "raised fr = None"
    and "\<forall>c. (d, s, s + n - 1, c) \<notin> seen_a fr"
    and "\<forall>c. window_code (day_map_get (day_map_at fr i) d) n s = Some c
           \<longrightarrow> \<not> isl (format_class_code c)"
  shows "pattern_a_start i n d s fr =
     add_matches (teacher_at fr i)
       (List.map_filter
          (\<lambda>s. map_option (\<lambda>c. (d, s, s + n - 1, c))
                 (window_code (day_map_get (day_map_at fr i) d) n s)) [s]) fr"
proof (cases "window_code (day_map_get (day_map_at fr i) d) n s")
  case None
  with assms show ?thesis by (simp add: pattern_a_start_eq map_filter_simps)
next
  case (Some c)
  with assms(3) obtain t where "format_class_code c = Inr t"
    by (cases "format_class_code c") auto
  with Some assms show ?thesis by (simp add: pattern_a_start_eq map_filter_simps)
qed

lemma fold_pattern_a_start:
  assumes "raised fr = None" and "distinct ss"
    and "\<forall>s \<in> set ss. \<forall>c. (d, s, s + n - 1, c) \<notin> seen_a fr"
    and "\<forall>s \<in> set ss. \<forall>c. window_code (day_map_get (day_map_at fr i) d) n s = Some c
           \<longrightarrow> \<not> isl (format_class_code c)"
  shows "fold (pattern_a_start i n d) ss fr =
     add_matches (teacher_at fr i)
       (List.map_filter
          (\<lambda>s. map_option (\<lambda>c. (d, s, s + n - 1, c))
                 (window_code (day_map_get (day_map_at fr i) d) n s)) ss) fr"
  using assms
proof (induction ss arbitrary: fr)
  case Nil
  then show ?case by (simp add: map_filter_simps)
next
  case (Cons s ss)
  let ?f = "\<lambda>s. map_option (\<lambda>c. (d, s, s + n - 1, c))
                 (window_code (day_map_get (day_map_at fr i) d) n s)"
  let ?fr = "add_matches (teacher_at fr i) (List.map_filter ?f [s]) fr"
  have step: "pattern_a_start i n d s fr = ?fr"
    using Cons.prems by (intro pattern_a_start_add) simp_all
  have "fold (pattern_a_start i n d) ss ?fr =
        add_matches (teacher_at ?fr i)
          (List.map_filter
            (\<lambda>s. map_option (\<lambda>c. (d, s, s + n - 1, c))
                   (window_code (day_map_get (day_map_at ?fr i) d) n s)) ss) ?fr"
    using Cons.prems
    by (intro Cons.IH) (auto simp: map_filter_simps split: option.splits)
  then show ?case
    by (simp add: step add_matches_append map_filter_simps split: option.split)
qed


lemma set_map_filter_eq:
  "set (List.map_filter f xs) = {y. \<exists>x \<in> set xs. f x = Some y}"
  by (induction xs) (auto split: option.splits)

lemma fold_pattern_a_day:
  assumes "raised fr = None" and "distinct ds"
    and "\<forall>m \<in> seen_a fr. fst m \<notin> set ds"
    and "\<forall>d \<in> set ds. \<forall>m \<in> set (day_matches (day_map_at fr i) n d).
           \<not> isl (format_class_code (snd (snd (snd m))))"
  shows "fold (pattern_a_day i n) ds fr =
     add_matches (teacher_at fr i) (concat (map (day_matches (day_map_at fr i) n) ds)) fr"
  using assms
proof (induction ds arbitrary: fr)
  case Nil
  then show ?case by simp
next
  case (Cons d ds)
  let ?fr = "add_matches (teacher_at fr i) (day_matches (day_map_at fr i) n d) fr"
  have fmt: "\<forall>s \<in> set [1..7 - n + 1].
      \<forall>c. window_code (day_map_get (day_map_at fr i) d) n s = Some c
        \<longrightarrow> \<not> isl (format_class_code c)"
  proof (intro ballI allI impI)
    fix s c
    assume "s \<in> set [1..7 - n + 1]"
      and "window_code (day_map_get (day_map_at fr i) d) n s = Some c"
    then have "(d, s, s + n - 1, c) \<in> set (day_matches (day_map_at fr i) n d)"
      by (force simp: day_matches_def set_map_filter_eq)
    with Cons.prems(4) show "\<not> isl (format_class_code c)" by force
  qed
  have step: "pattern_a_day i n d fr = ?fr"
    unfolding pattern_a_day_def Let_def day_matches_def
    using Cons.prems(1,3) fmt
    by (intro fold_pattern_a_start) auto
  have days: "\<forall>m \<in> set (day_matches (day_map_at fr i) n d). fst m = d"
    by (auto simp: day_matches_def set_map_filter_eq)
  have "fold (pattern_a_day i n) ds ?fr =
     add_matches (teacher_at ?fr i) (concat (map (day_matches (day_map_at ?fr i) n) ds)) ?fr"
    using Cons.prems days by (intro Cons.IH) auto
  then show ?case
    by (simp add: step add_matches_append)
qed

lemma distinct_DAYS_ORDER: "distinct DAYS_ORDER"
  by (simp add: DAYS_ORDER_def)

lemma pattern_a_eq:
  assumes "raised fr = None"
    and "\<forall>m \<in> set (a_matches (day_map_at fr i) n).
           \<not> isl (format_class_code (snd (snd (snd m))))"
  shows "pattern_a i n fr =
     add_matches (teacher_at fr i) (a_matches (day_map_at fr i) n) (fr\<lparr>seen_a := {}\<rparr>)"
proof -
  have "fold (pattern_a_day i n) DAYS_ORDER (fr\<lparr>seen_a := {}\<rparr>) =
     add_matches (teacher_at (fr\<lparr>seen_a := {}\<rparr>) i)
       (concat (map (day_matches (day_map_at (fr\<lparr>seen_a := {}\<rparr>) i) n) DAYS_ORDER))
       (fr\<lparr>seen_a := {}\<rparr>)"
    using assms by (intro fold_pattern_a_day) (auto simp: distinct_DAYS_ORDER a_matches_def)
  then show ?thesis by (simp add: pattern_a_def a_matches_def)
qed

lemma pattern_b_eq:
  assumes "raised fr = None"
  shows "pattern_b i tp m fr =
    (if m \<le> int (length (qualifying_days (day_map_at fr i) tp))
     then fr\<lparr>matched_days := qualifying_days (day_map_at fr i) tp,
            teacher_msgs := teacher_msgs fr @ [b_message (teacher_at fr i) (day_map_at fr i) tp m],
            teacher_summary := (teacher_summary fr)
              \<lparr>patternB := \<lparr>triggered = True, days = qualifying_days (day_map_at fr i) tp\<rparr>\<rparr>\<rparr>
     else fr\<lparr>matched_days := qualifying_days (day_map_at fr i) tp\<rparr>)"
  using assms
  by (simp add: pattern_b_def unless_raised_def fold_pattern_b_day qualifying_days_def
      b_message_def Let_def)

lemma pattern_c_eq:
  assumes "raised fr = None"
  shows "pattern_c i m c7 fr =
    (if c7 then
       (if m \<le> int (length (period7_days (day_map_at fr i)))
        then fr\<lparr>matched_days := period7_days (day_map_at fr i),
               teacher_msgs := teacher_msgs fr @ [c_message (teacher_at fr i) (day_map_at fr i) m],
               teacher_summary := (teacher_summary fr)
                 \<lparr>patternC := \<lparr>triggered = True, days = period7_days (day_map_at fr i)\<rparr>\<rparr>\<rparr>
        else fr\<lparr>matched_days := period7_days (day_map_at fr i)\<rparr>)
     else fr)"
  using assms
  by (simp add: pattern_c_def unless_raised_def fold_pattern_c_day period7_days_def
      c_message_def Let_def)

lemma teacher_summary_add_matches [simp]:
  "teacher_summary (add_matches t ms fr) =
   (teacher_summary fr)\<lparr>patternA := patternA (teacher_summary fr) @ ms\<rparr>"
  by (simp add: add_matches_def)

lemma analyze_teacher_eq:
  assumes "raised fr = None" and "formats (day_map_at fr i) n"
  shows "raised (analyze_teacher n tp m c7 i fr) = None"
    and "summary (analyze_teacher n tp m c7 i fr) =
         AList.update (teacher_at fr i) (summary_of (day_map_at fr i) n tp m c7) (summary fr)"
    and "messages (analyze_teacher n tp m c7 i fr) =
         (if messages_of (teacher_at fr i) (day_map_at fr i) n tp m c7 = [] then messages fr
          else AList.update (teacher_at fr i)
                 (messages_of (teacher_at fr i) (day_map_at fr i) n tp m c7) (messages fr))"
proof -
  define fr0 where "fr0 = fr\<lparr>teacher_msgs := [], teacher_summary := new_summary\<rparr>"
  define t where "t = teacher_at fr i"
  define dm where "dm = day_map_at fr i"
  define a where "a = pattern_a i n fr0"
  define b where "b = pattern_b i tp m a"
  define c where "c = pattern_c i m c7 b"
  have a_eq: "a = add_matches t (a_matches dm n) (fr0\<lparr>seen_a := {}\<rparr>)"
    using assms pattern_a_eq [of fr0 i n]
    by (simp add: a_def fr0_def t_def dm_def formats_def list_all_iff)
  have a: "raised a = None" "teacher_at a i = t" "day_map_at a i = dm"
    "summary a = summary fr" "messages a = messages fr"
    "teacher_msgs a = map (a_message t) (a_matches dm n)"
    "teacher_summary a = new_summary\<lparr>patternA := a_matches dm n\<rparr>"
    using assms(1) by (simp_all add: a_eq fr0_def t_def dm_def new_summary_def)
  have b: "raised b = None" "teacher_at b i = t" "day_map_at b i = dm"
    "summary b = summary fr" "messages b = messages fr"
    "teacher_msgs b = map (a_message t) (a_matches dm n) @
       (if m \<le> int (length (qualifying_days dm tp)) then [b_message t dm tp m] else [])"
    "teacher_summary b = new_summary\<lparr>patternA := a_matches dm n,
       patternB := (if m \<le> int (length (qualifying_days dm tp))
         then \<lparr>triggered = True, days = qualifying_days dm tp\<rparr>
         else \<lparr>triggered = False, days = []\<rparr>)\<rparr>"
    using a by (simp_all add: b_def pattern_b_eq new_summary_def)
  have c: "raised c = None" "teacher_at c i = t"
    "summary c = summary fr" "messages c = messages fr"
    "teacher_msgs c = messages_of t dm n tp m c7"
    "teacher_summary c = summary_of dm n tp m c7"
    using b by (simp_all add: c_def pattern_c_eq new_summary_def messages_of_def summary_of_def)
  have unfold: "analyze_teacher n tp m c7 i fr = collect i c"
    using assms(1)
    by (simp add: analyze_teacher_def unless_raised_def Let_def a_def b_def c_def fr0_def)
  show "raised (analyze_teacher n tp m c7 i fr) = None"
    using c by (simp add: unfold collect_def unless_raised_def Let_def)
  show "summary (analyze_teacher n tp m c7 i fr) =
         AList.update (teacher_at fr i) (summary_of (day_map_at fr i) n tp m c7) (summary fr)"
    using c by (simp add: unfold collect_def unless_raised_def Let_def t_def dm_def)
  show "messages (analyze_teacher n tp m c7 i fr) =
         (if messages_of (teacher_at fr i) (day_map_at fr i) n tp m c7 = [] then messages fr
          else AList.update (teacher_at fr i)
                 (messages_of (teacher_at fr i) (day_map_at fr i) n tp m c7) (messages fr))"
    using c by (simp add: unfold collect_def unless_raised_def Let_def t_def dm_def)
qed

section \<open>The result of the analyzer\<close>

lemma update_fresh: "k \<notin> fst ` set al \<Longrightarrow> AList.update k v al = al @ [(k, v)]"
  by (induction al) auto

lemma new_frame_fields [simp]:
  "raised (new_frame dat) = None" "data (new_frame dat) = dat"
  "summary (new_frame dat) = []" "messages (new_frame dat) = []"
  by (simp_all add: new_frame_def)

lemma run_prefix_raised:
  assumes "\<forall>p \<in> set dat. formats (snd p) n" and "k \<le> length dat"
  shows "raised (fold (analyze_teacher n tp m c7) [0..<k] (new_frame dat)) = None
       \<and> data (fold (analyze_teacher n tp m c7) [0..<k] (new_frame dat)) = dat"
  using assms(2)
proof (induction k)
  case 0
  then show ?case by simp
next
  case (Suc k)
  let ?F = "fold (analyze_teacher n tp m c7) [0..<k] (new_frame dat)"
  from Suc have F: "raised ?F = None" "data ?F = dat" by simp_all
  from Suc.prems assms(1) have "formats (day_map_at ?F k) n"
    by (simp add: day_map_at_def F)
  with F show ?case by (simp add: analyze_teacher_eq)
qed

lemma run_prefix_summary:
  assumes "\<forall>p \<in> set dat. formats (snd p) n" and "distinct (map fst dat)"
    and "k \<le> length dat"
  shows "summary (fold (analyze_teacher n tp m c7) [0..<k] (new_frame dat)) =
           map (\<lambda>p. (fst p, summary_of (snd p) n tp m c7)) (take k dat)
       \<and> messages (fold (analyze_teacher n tp m c7) [0..<k] (new_frame dat)) =
           map (\<lambda>p. (fst p, messages_of (fst p) (snd p) n tp m c7))
             (filter (\<lambda>p. messages_of (fst p) (snd p) n tp m c7 \<noteq> []) (take k dat))"
  using assms(3)
proof (induction k)
  case 0
  then show ?case by simp
next
  case (Suc k)
  let ?F = "fold (analyze_teacher n tp m c7) [0..<k] (new_frame dat)"
  from Suc.prems have k: "k < length dat" by simp
  from run_prefix_raised [OF assms(1), of k] k
  have F: "raised ?F = None" "data ?F = dat" by simp_all
  from k assms(1) have fm: "formats (day_map_at ?F k) n"
    by (simp add: day_map_at_def F)
  have tk: "take (Suc k) dat = take k dat @ [dat ! k]"
    using k by (simp add: take_Suc_conv_app_nth)
  from assms(2) k have fresh: "fst (dat ! k) \<notin> fst ` set (take k dat)"
    by (metis distinct_take id_take_nth_drop distinct_append tk
        disjoint_iff image_set list.set_intros(1) map_append not_distinct_conv_prefix
        take_map nth_map length_map)
  have s: "summary ?F = map (\<lambda>p. (fst p, summary_of (snd p) n tp m c7)) (take k dat)"
    and ms: "messages ?F = map (\<lambda>p. (fst p, messages_of (fst p) (snd p) n tp m c7))
             (filter (\<lambda>p. messages_of (fst p) (snd p) n tp m c7 \<noteq> []) (take k dat))"
    using Suc k by simp_all
  have f1: "fst (dat ! k) \<notin> fst ` set (summary ?F)"
    using fresh by (force simp: s)
  have f2: "fst (dat ! k) \<notin> fst ` set (messages ?F)"
    using fresh by (force simp: ms)
  show ?case
    using F fm f1 f2
    by (simp add: analyze_teacher_eq update_fresh teacher_at_def day_map_at_def tk)
       (simp add: s ms)
qed

lemma analyze_patterns_eq:
  assumes "\<forall>p \<in> set dat. formats (snd p) n" and "distinct (map fst dat)"
  shows "analyze_patterns dat n tp m c7 =
     Inr (map (\<lambda>p. (fst p, messages_of (fst p) (snd p) n tp m c7))
            (filter (\<lambda>p. messages_of (fst p) (snd p) n tp m c7 \<noteq> []) dat),
          map (\<lambda>p. (fst p, summary_of (snd p) n tp m c7)) dat)"
  using run_prefix_raised [OF assms(1), of "length dat" tp m c7]
    run_prefix_summary [OF assms, of "length dat" tp m c7]
  by (simp add: analyze_patterns_def run_analyze_patterns_def Let_def)

lemma analyze_patterns_returns:
  assumes "\<forall>p \<in> set dat. formats (snd p) n"
  shows "\<not> isl (analyze_patterns dat n tp m c7)"
  using run_prefix_raised [OF assms, of "length dat" tp m c7]
  by (simp add: analyze_patterns_def run_analyze_patterns_def Let_def)

lemma map_of_summaries:
  assumes "distinct (map fst dat)" and "(t, dm) \<in> set dat"
  shows "map_of (map (\<lambda>p. (fst p, f (fst p) (snd p))) dat) t = Some (f t dm)"
proof -
  have "distinct (map fst (map (\<lambda>p. (fst p, f (fst p) (snd p))) dat))"
    using assms(1) by (simp add: comp_def)
  moreover have "(t, f t dm) \<in> set (map (\<lambda>p. (fst p, f (fst p) (snd p))) dat)"
    using assms(2) by force
  ultimately show ?thesis by (rule map_of_is_SomeI)
qed

lemma messages_for_eq:
  assumes "distinct (map fst dat)" and "(t, dm) \<in> set dat"
  shows "messages_for (map (\<lambda>p. (fst p, f (fst p) (snd p))) (filter (\<lambda>p. f (fst p) (snd p) \<noteq> []) dat)) t
         = f t dm"
proof (cases "f t dm = []")
  case True
  have "t \<notin> fst ` set (filter (\<lambda>p. f (fst p) (snd p) \<noteq> []) dat)"
  proof
    assume "t \<in> fst ` set (filter (\<lambda>p. f (fst p) (snd p) \<noteq> []) dat)"
    then obtain dm' where d: "(t, dm') \<in> set dat" and ne: "f t dm' \<noteq> []" by auto
    from assms d have "dm' = dm" by (meson eq_key_imp_eq_value)
    with ne True show False by simp
  qed
  then have "map_of (map (\<lambda>p. (fst p, f (fst p) (snd p)))
      (filter (\<lambda>p. f (fst p) (snd p) \<noteq> []) dat)) t = None"
    by (simp add: map_of_eq_None_iff image_image)
  with True show ?thesis by (simp add: messages_for_def)
next
  case False
  have "distinct (map fst (filter (\<lambda>p. f (fst p) (snd p) \<noteq> []) dat))"
    using assms(1) by (simp add: distinct_map_filter)
  moreover from False assms(2)
  have "(t, dm) \<in> set (filter (\<lambda>p. f (fst p) (snd p) \<noteq> []) dat)" by simp
  ultimately have "map_of (map (\<lambda>p. (fst p, f (fst p) (snd p)))
      (filter (\<lambda>p. f (fst p) (snd p) \<noteq> []) dat)) t = Some (f t dm)"
    by (rule map_of_summaries)
  then show ?thesis by (simp add: messages_for_def)
qed

lemma decimal_digits_Some:
  "list_all isdecimal s \<Longrightarrow> \<exists>v. decimal_digits s k = Some v"
  by (induction s arbitrary: k) (auto simp: isdecimal_def)

lemma format_class_code_decimal:
  assumes "list_all isdecimal c"
  shows "\<not> isl (format_class_code c)"
proof (cases "length c = 3 \<and> list_all isdigit c")
  case True
  then have "drop 1 c \<noteq> []" by auto
  moreover from assms have "list_all isdecimal (drop 1 c)"
    by (auto simp: list_all_iff dest: in_set_dropD)
  ultimately obtain v where "py_int (drop 1 c) = Inr v"
    using decimal_digits_Some [of "drop 1 c" 0] by (auto simp: py_int_def)
  with True show ?thesis by (simp add: format_class_code_def)
next
  case False
  then show ?thesis by (auto simp: format_class_code_def)
qed

lemma window_code_Some:
  "window_code ps n s = Some c \<longleftrightarrow>
     1 \<le> n \<and> (\<forall>p \<in> {s..s + n - 1}. periods_get ps p = Some c)"
proof (cases "1 \<le> n")
  case True
  then have "[s..s + n - 1] = s # [s + 1..s + n - 1]"
    by (simp add: upto_rec1)
  moreover have "{s..s + n - 1} = insert s {s + 1..s + n - 1}"
    using True by auto
  ultimately show ?thesis
    using True by (auto simp: window_code_def list_all_iff)
next
  case False
  then show ?thesis by (simp add: window_code_def)
qed

lemma a_matches_iff:
  "(d, s, e, c) \<in> set (a_matches dm n) \<longleftrightarrow>
     d \<in> set DAYS_ORDER \<and> 1 \<le> s \<and> s \<le> 7 - n + 1 \<and> e = s + n - 1 \<and>
     window_code (day_map_get dm d) n s = Some c"
  by (auto simp: a_matches_def day_matches_def set_map_filter_eq)

lemma a_matches_empty: "7 < n \<Longrightarrow> a_matches dm n = []"
  by (simp add: a_matches_def day_matches_def)

lemma formats_above_7: "7 < n \<Longrightarrow> formats dm n"
  by (simp add: formats_def a_matches_empty)

lemma decimal_codes_formats:
  assumes "decimal_codes dm"
  shows "formats dm n"
  unfolding formats_def list_all_iff
proof
  fix x assume x: "x \<in> set (a_matches dm n)"
  obtain d s e c where [simp]: "x = (d, s, e, c)" by (cases x) auto
  from x have d: "d \<in> set DAYS_ORDER" and s: "1 \<le> s" "s \<le> 7 - n + 1"
    and w: "window_code (day_map_get dm d) n s = Some c"
    by (simp_all add: a_matches_iff)
  from w have n: "1 \<le> n" and "periods_get (day_map_get dm d) s = Some c"
    by (auto simp: window_code_Some)
  moreover from s n have "s \<in> set [1..7]" by simp
  ultimately have "decimal_code (Some c)"
    using assms d unfolding decimal_codes_def list_all_iff by metis
  then show "\<not> isl (format_class_code (snd (snd (snd x))))"
    by (simp add: decimal_code_def format_class_code_decimal)
qed

section \<open>The findings of one teacher\<close>

lemma distinct_day_matches: "distinct (day_matches dm n d)"
proof -
  have "distinct ss \<Longrightarrow> distinct (List.map_filter
      (\<lambda>s. map_option (\<lambda>c. (d, s, s + n - 1, c)) (w s)) ss)" for ss and w :: "int \<Rightarrow> pystr option"
    by (induction ss) (auto simp: set_map_filter_eq split: option.splits)
  then show ?thesis by (simp add: day_matches_def)
qed

lemma distinct_a_matches: "distinct (a_matches dm n)"
proof -
  have "distinct ds \<Longrightarrow> distinct (concat (map (day_matches dm n) ds))" for ds
  proof (induction ds)
    case Nil
    then show ?case by simp
  next
    case (Cons d ds)
    have "fst x = d" if "x \<in> set (day_matches dm n d)" for x
      using that by (auto simp: day_matches_def set_map_filter_eq)
    moreover have "fst x \<in> set ds" if "x \<in> set (concat (map (day_matches dm n) ds))" for x
      using that by (auto simp: day_matches_def set_map_filter_eq)
    ultimately have "set (day_matches dm n d) \<inter> set (concat (map (day_matches dm n) ds)) = {}"
      using Cons.prems by fastforce
    with Cons show ?case by (simp add: distinct_day_matches)
  qed
  then show ?thesis by (simp add: a_matches_def distinct_DAYS_ORDER)
qed

lemma qualifying_days_iff:
  "d \<in> set (qualifying_days dm tp) \<longleftrightarrow>
     d \<in> set DAYS_ORDER \<and> (\<forall>p \<in> set tp. periods_get (day_map_get dm d) p \<noteq> None)"
  by (auto simp: qualifying_days_def list_all_iff)

lemma qualifying_days_Nil: "qualifying_days dm [] = DAYS_ORDER"
  by (simp add: qualifying_days_def)

lemma is_PatternA_messages_of:
  "filter is_PatternA (messages_of t dm n tp m c7) = map (a_message t) (a_matches dm n)"
proof -
  have "filter is_PatternA (map (a_message t) ms) = map (a_message t) ms" for ms
    by (induction ms) (auto simp: a_message_def is_PatternA_def)
  then show ?thesis
    by (simp add: messages_of_def is_PatternA_def b_message_def c_message_def)
qed

lemma is_PatternB_messages_of:
  "filter is_PatternB (messages_of t dm n tp m c7) =
     (if m \<le> int (length (qualifying_days dm tp)) then [b_message t dm tp m] else [])"
proof -
  have "filter is_PatternB (map (a_message t) ms) = []" for ms
    by (induction ms) (auto simp: a_message_def is_PatternB_def)
  then show ?thesis
    by (simp add: messages_of_def is_PatternB_def b_message_def c_message_def)
qed

lemma analyze_patterns_result:
  assumes "\<forall>p \<in> set dat. formats (snd p) n" and "distinct (map fst dat)"
  shows "\<exists>msgs summ. analyze_patterns dat n tp m c7 = Inr (msgs, summ)
     \<and> (\<forall>t dm. (t, dm) \<in> set dat \<longrightarrow>
          map_of summ t = Some (summary_of dm n tp m c7)
        \<and> messages_for msgs t = messages_of t dm n tp m c7)"
proof (intro exI conjI allI impI)
  show "analyze_patterns dat n tp m c7 =
     Inr (map (\<lambda>p. (fst p, messages_of (fst p) (snd p) n tp m c7))
            (filter (\<lambda>p. messages_of (fst p) (snd p) n tp m c7 \<noteq> []) dat),
          map (\<lambda>p. (fst p, summary_of (snd p) n tp m c7)) dat)"
    using assms by (rule analyze_patterns_eq)
next
  fix t dm assume "(t, dm) \<in> set dat"
  with assms(2)
  show "map_of (map (\<lambda>p. (fst p, summary_of (snd p) n tp m c7)) dat) t
      = Some (summary_of dm n tp m c7)"
    by (rule map_of_summaries [where f = "\<lambda>t dm. summary_of dm n tp m c7"])
next
  fix t dm assume "(t, dm) \<in> set dat"
  with assms(2)
  show "messages_for (map (\<lambda>p. (fst p, messages_of (fst p) (snd p) n tp m c7))
            (filter (\<lambda>p. messages_of (fst p) (snd p) n tp m c7 \<noteq> []) dat)) t
      = messages_of t dm n tp m c7"
    by (rule messages_for_eq [where f = "\<lambda>t dm. messages_of t dm n tp m c7"])
qed

lemma upto_1_7: "[1..7] = [1, 2, 3, 4, 5, 6, 7::int]"
  by (simp add: upto_rec1)

lemma decimal_101: "list_all isdecimal [49, 48, 49]"
  by (simp add: isdecimal_def decimal_value_def decimal_zeros_def)

lemma example_decimal: "\<forall>p \<in> set example_teachers. decimal_codes (snd p)"
  using decimal_101
  by (simp add: example_teachers_def example_schedule_def decimal_codes_def DAYS_ORDER_def
      empty_schedule_def empty_periods_def day_map_get_def periods_get_def decimal_code_def
      upto_1_7)

lemma example_schedule_decimal: "decimal_codes example_schedule"
  using example_decimal by (simp add: example_teachers_def)

lemma example_distinct: "distinct (map fst example_teachers)"
  by (simp add: example_teachers_def)

lemma example_member: "([65], example_schedule) \<in> set example_teachers"
  by (simp add: example_teachers_def)

lemma example_qualifying: "qualifying_days example_schedule [1, 2] = [[50900]]"
  by (simp add: qualifying_days_def example_schedule_def DAYS_ORDER_def
      empty_schedule_def empty_periods_def day_map_get_def periods_get_def upto_1_7)

section \<open>The day-block locator\<close>

lemma detect_column_grows:
  "\<exists>more seen'. detect_column sh row col (bs, seen) = (bs @ more, seen')"
  by (auto simp: detect_column_def Let_def split: cell.split)

lemma fold_detect_column_grows:
  "\<exists>more seen'. fold (detect_column sh row) cols (bs, seen) = (bs @ more, seen')"
proof (induction cols arbitrary: bs seen)
  case Nil
  then show ?case by simp
next
  case (Cons col cols)
  obtain m1 s1 where 1: "detect_column sh row col (bs, seen) = (bs @ m1, s1)"
    using detect_column_grows by blast
  obtain m2 s2 where "fold (detect_column sh row) cols (bs @ m1, s1) = ((bs @ m1) @ m2, s2)"
    using Cons.IH by blast
  with 1 show ?case by simp
qed

lemma fold_detect_column_empty:
  "fst (fold (detect_column sh row) cols ([], {})) = [] \<longleftrightarrow>
     \<not> list_ex (weekday_label sh row) cols"
proof (induction cols)
  case Nil
  then show ?case by simp
next
  case (Cons col cols)
  show ?case
  proof (cases "weekday_label sh row col")
    case True
    then obtain b s where 1: "detect_column sh row col ([], {}) = ([b], s)"
      by (auto simp: detect_column_def weekday_label_def Let_def split: cell.splits)
    obtain more s' where "fold (detect_column sh row) cols ([b], s) = ([b] @ more, s')"
      using fold_detect_column_grows by blast
    with 1 True show ?thesis by simp
  next
    case False
    then have "detect_column sh row col ([], {}) = ([], {})"
      by (auto simp: detect_column_def weekday_label_def Let_def split: cell.splits)
    with False Cons show ?thesis by simp
  qed
qed

lemma detect_day_blocks_eq:
  "detect_day_blocks sh =
     (if list_ex (weekday_label sh 2) [1..attr_or_0 (max_column sh)]
      then Inr (fst (fold (detect_column sh 2) [1..attr_or_0 (max_column sh)] ([], {})))
      else Inl (ParseError no_day_blocks))"
proof -
  obtain bs seen where f:
    "fold (detect_column sh 2) [1..attr_or_0 (max_column sh)] ([], {}) = (bs, seen)"
    by (cases "fold (detect_column sh 2) [1..attr_or_0 (max_column sh)] ([], {})")
  with fold_detect_column_empty [of sh 2 "[1..attr_or_0 (max_column sh)]"]
  have "bs = [] \<longleftrightarrow> \<not> list_ex (weekday_label sh 2) [1..attr_or_0 (max_column sh)]"
    by simp
  with f show ?thesis by (simp add: detect_day_blocks_def Let_def)
qed

lemma fold_detect_column_days:
  assumes "fold (detect_column sh row) cols (bs, seen) = (bs', seen')"
    and "seen = day ` set bs" and "distinct (map day bs)" and "day ` set bs \<subseteq> set DAYS_ORDER"
  shows "seen' = day ` set bs' \<and> distinct (map day bs') \<and> day ` set bs' \<subseteq> set DAYS_ORDER"
  using assms
proof (induction cols arbitrary: bs seen)
  case Nil
  then show ?case by auto
next
  case (Cons col cols)
  obtain b1 s1 where 1: "detect_column sh row col (bs, seen) = (b1, s1)"
    by (cases "detect_column sh row col (bs, seen)")
  with Cons.prems(2-4)
  have "s1 = day ` set b1 \<and> distinct (map day b1) \<and> day ` set b1 \<subseteq> set DAYS_ORDER"
    by (auto simp: detect_column_def Let_def image_subset_iff split: cell.splits if_splits)
  with Cons.IH [of b1 s1] Cons.prems(1) 1 show ?case by simp
qed

lemma detect_day_blocks_days:
  assumes "detect_day_blocks sh = Inr bs"
  shows "distinct (map day bs) \<and> day ` set bs \<subseteq> set DAYS_ORDER \<and> bs \<noteq> []"
proof -
  obtain bs' seen' where f:
    "fold (detect_column sh 2) [1..attr_or_0 (max_column sh)] ([], {}) = (bs', seen')"
    by (cases "fold (detect_column sh 2) [1..attr_or_0 (max_column sh)] ([], {})")
  with assms have "bs' = bs" "bs \<noteq> []"
    by (auto simp: detect_day_blocks_def Let_def split: if_splits)
  with fold_detect_column_days [OF f] show ?thesis by simp
qed

section \<open>The teacher-grid builder\<close>

lemma fold_upd_apply:
  "fold (\<lambda>k m. m(k \<mapsto> f k)) ks m0 q = (if q \<in> set ks then Some (f q) else m0 q)"
  by (induction ks arbitrary: m0) auto

lemma store_cell_eq:
  assumes "map_of dat t = Some sched" and "sched (day b) = Some ps"
  shows "store_cell sh row t b p dat =
     Inr (AList.update t
       (sched(day b \<mapsto> ps(p \<mapsto> parse_cell_to_class (cell_value sh row (start_col b + p - 1)))))
       dat)"
  using assms by (simp add: store_cell_def Let_def)

lemma store_cell_update:
  "store_cell sh row t b p (AList.update t (sched(day b \<mapsto> ps)) dat) =
     Inr (AList.update t
       (sched(day b \<mapsto> ps(p \<mapsto> parse_cell_to_class (cell_value sh row (start_col b + p - 1)))))
       dat)"
  by (simp add: store_cell_def Let_def update_conv')

lemma for_each_periods_update:
  "for_each (store_cell sh row t b) pl (AList.update t (sched(day b \<mapsto> ps)) dat) =
     Inr (AList.update t
       (sched(day b \<mapsto>
          fold (\<lambda>p m. m(p \<mapsto> parse_cell_to_class (cell_value sh row (start_col b + p - 1))))
            pl ps)) dat)"
  by (induction pl arbitrary: ps) (simp_all add: store_cell_update)

lemma for_each_blocks_update:
  assumes "\<forall>b \<in> set bl. day b \<in> dom sched"
  shows "for_each (\<lambda>b. for_each (store_cell sh row t b) [1..7]) bl (AList.update t sched dat) =
     Inr (AList.update t (fill_row sh row bl sched) dat)"
  using assms
proof (induction bl arbitrary: sched)
  case Nil
  then show ?case by (simp add: fill_row_def)
next
  case (Cons b bl)
  from Cons.prems obtain ps where ps: "sched (day b) = Some ps" by auto
  then have s: "sched = sched(day b \<mapsto> ps)" by (simp add: fun_upd_idem)
  have 1: "for_each (store_cell sh row t b) [1..7] (AList.update t sched dat) =
      Inr (AList.update t (sched(day b \<mapsto> fill_block sh row b ps)) dat)"
    by (subst s) (simp only: for_each_periods_update fill_block_def)
  have "\<forall>x \<in> set bl. day x \<in> dom (sched(day b \<mapsto> fill_block sh row b ps))"
    using Cons.prems by auto
  then have "for_each (\<lambda>b. for_each (store_cell sh row t b) [1..7]) bl
      (AList.update t (sched(day b \<mapsto> fill_block sh row b ps)) dat) =
     Inr (AList.update t (fill_row sh row bl (sched(day b \<mapsto> fill_block sh row b ps))) dat)"
    by (rule Cons.IH)
  with 1 ps show ?case by (simp add: fill_row_def)
qed

lemma for_each_blocks:
  assumes "map_of dat t = Some sched" and "\<forall>b \<in> set bl. day b \<in> dom sched"
  shows "for_each (\<lambda>b. for_each (store_cell sh row t b) [1..7]) bl dat =
     Inr (AList.update t (fill_row sh row bl sched) dat)"
proof -
  from assms(1) have "AList.update t sched dat = dat" by (rule update_triv)
  with for_each_blocks_update [OF assms(2), of sh row t dat] show ?thesis by simp
qed

lemma parse_row_eq:
  assumes "\<forall>b \<in> set bl. day b \<in> set DAYS_ORDER"
    and "\<forall>p \<in> set dat. dom (snd p) = set DAYS_ORDER"
    and "dom empty_schedule = set DAYS_ORDER"
  shows "parse_row sh bl row dat =
     (case row_teacher sh row of
        None \<Rightarrow> Inr dat
      | Some t \<Rightarrow>
          Inr (AList.update t
            (fill_row sh row bl
               (case map_of dat t of None \<Rightarrow> empty_schedule | Some s \<Rightarrow> s)) dat))"
proof (cases "row_teacher sh row")
  case None
  then show ?thesis
    by (auto simp: parse_row_def row_teacher_def Let_def split: if_splits)
next
  case (Some t)
  then have t: "cell_value sh row 1 \<noteq> NoneValue"
    "\<not> (case cell_value sh row 1 of Str s \<Rightarrow> strip s = [] | _ \<Rightarrow> False)"
    "normalize_teacher_name (str_of_cell (cell_value sh row 1)) = t" "t \<noteq> []"
    by (auto simp: row_teacher_def Let_def split: if_splits)
  show ?thesis
  proof (cases "map_of dat t")
    case None
    have "for_each (\<lambda>b. for_each (store_cell sh row t b) [1..7]) bl
            (AList.update t empty_schedule dat) =
          Inr (AList.update t (fill_row sh row bl empty_schedule) dat)"
      using assms(1,3) by (intro for_each_blocks_update) auto
    with None Some t show ?thesis by (simp add: parse_row_def Let_def)
  next
    case (Some s)
    then have "(t, s) \<in> set dat" by (rule map_of_SomeD)
    with assms(2) have "dom s = set DAYS_ORDER" by force
    with assms(1) Some
    have "for_each (\<lambda>b. for_each (store_cell sh row t b) [1..7]) bl dat =
          Inr (AList.update t (fill_row sh row bl s) dat)"
      by (intro for_each_blocks) auto
    with Some \<open>row_teacher sh row = Some t\<close> t show ?thesis
      by (simp add: parse_row_def Let_def)
  qed
qed

section \<open>Schedules are complete\<close>

lemma fill_block_apply:
  "fill_block sh row b ps p =
     (if p \<in> {1..7} then Some (parse_cell_to_class (cell_value sh row (start_col b + p - 1)))
      else ps p)"
  unfolding fill_block_def
  by (simp only: fold_upd_apply
      [where f = "\<lambda>p. parse_cell_to_class (cell_value sh row (start_col b + p - 1))"] set_upto)

lemma decimal_code_parse: "decimal_code (parse_cell_to_class v)"
  by (cases v) (auto simp: parse_cell_to_class_def decimal_code_def
      split: option.splits dest: match_leading_digits_range)

lemma empty_periods_apply: "empty_periods p = (if p \<in> {1..7} then Some None else None)"
  unfolding empty_periods_def
  by (simp only: fold_upd_apply [where f = "\<lambda>p. None"] set_upto)

lemma empty_schedule_apply:
  "empty_schedule d = (if d \<in> set DAYS_ORDER then Some empty_periods else None)"
  unfolding empty_schedule_def
  by (simp only: fold_upd_apply [where f = "\<lambda>d. empty_periods"])

lemma full_empty_schedule: "full_schedule empty_schedule"
  by (auto simp: full_schedule_def empty_schedule_apply empty_periods_apply decimal_code_def
      dom_def split: if_splits)

lemma full_schedule_upd:
  assumes "full_schedule s" and "s d = Some ps"
  shows "full_schedule (s(d \<mapsto> fill_block sh row b ps))"
proof -
  from assms have dps: "dom ps = {1..7}" and vs: "\<forall>p v. ps p = Some v \<longrightarrow> decimal_code v"
    by (auto simp: full_schedule_def)
  have "dom (fill_block sh row b ps) = {1..7}"
    using dps by (auto simp: fill_block_apply dom_def split: if_splits)
  moreover have "decimal_code v" if "fill_block sh row b ps p = Some v" for p v
    using that vs by (auto simp: fill_block_apply decimal_code_parse split: if_splits)
  moreover from assms have "insert d (dom s) = dom s" by auto
  ultimately show ?thesis
    using assms(1) by (auto simp: full_schedule_def)
qed

lemma full_schedule_fill_row:
  "full_schedule s \<Longrightarrow> full_schedule (fill_row sh row bl s)"
proof (induction bl arbitrary: s)
  case Nil
  then show ?case by (simp add: fill_row_def)
next
  case (Cons b bl)
  show ?case
  proof (cases "s (day b)")
    case None
    with Cons show ?thesis by (simp add: fill_row_def)
  next
    case (Some ps)
    with Cons.prems have "full_schedule (s(day b \<mapsto> fill_block sh row b ps))"
      by (intro full_schedule_upd)
    then have "full_schedule (fill_row sh row bl (s(day b \<mapsto> fill_block sh row b ps)))"
      by (rule Cons.IH)
    with Some show ?thesis by (simp add: fill_row_def)
  qed
qed

lemma set_update_cases:
  "x \<in> set (AList.update k v al) \<Longrightarrow> x = (k, v) \<or> x \<in> set al"
  by (induction al) (auto split: if_splits)

lemma for_each_inv:
  assumes "I s" and "\<And>x s. I s \<Longrightarrow> \<exists>s'. body x s = Inr s' \<and> I s'"
  shows "\<exists>s'. for_each body xs s = Inr s' \<and> I s'"
  using assms(1)
proof (induction xs arbitrary: s)
  case Nil
  then show ?case by simp
next
  case (Cons x xs)
  from assms(2) [OF Cons.prems] obtain s1 where "body x s = Inr s1" "I s1" by blast
  with Cons.IH [of s1] show ?case by simp
qed

lemma parse_row_inv:
  assumes "\<forall>b \<in> set bl. day b \<in> set DAYS_ORDER"
    and "distinct (map fst dat) \<and> (\<forall>p \<in> set dat. full_schedule (snd p))"
  shows "\<exists>dat'. parse_row sh bl row dat = Inr dat'
     \<and> distinct (map fst dat') \<and> (\<forall>p \<in> set dat'. full_schedule (snd p))"
proof -
  have doms: "\<forall>p \<in> set dat. dom (snd p) = set DAYS_ORDER"
    using assms(2) by (simp add: full_schedule_def)
  have de: "dom empty_schedule = set DAYS_ORDER"
    using full_empty_schedule by (simp add: full_schedule_def)
  note eq = parse_row_eq [OF assms(1) doms de, of sh row]
  show ?thesis
  proof (cases "row_teacher sh row")
    case None
    with eq assms(2) show ?thesis by simp
  next
    case (Some t)
    let ?s0 = "case map_of dat t of None \<Rightarrow> empty_schedule | Some s \<Rightarrow> s"
    have "full_schedule ?s0"
      using assms(2) full_empty_schedule
      by (auto split: option.split dest!: map_of_SomeD)
    then have f: "full_schedule (fill_row sh row bl ?s0)"
      by (rule full_schedule_fill_row)
    have "\<forall>p \<in> set (AList.update t (fill_row sh row bl ?s0) dat). full_schedule (snd p)"
      using assms(2) f by (auto dest!: set_update_cases)
    moreover have "distinct (map fst (AList.update t (fill_row sh row bl ?s0) dat))"
      using assms(2) by (simp add: distinct_update)
    ultimately show ?thesis using eq Some by simp
  qed
qed

lemma parse_teacher_rows_inv:
  assumes "\<forall>b \<in> set bl. day b \<in> set DAYS_ORDER"
  shows "\<exists>dat. parse_teacher_rows sh bl = Inr dat
     \<and> distinct (map fst dat) \<and> (\<forall>p \<in> set dat. full_schedule (snd p))"
  unfolding parse_teacher_rows_def Let_def
  by (rule for_each_inv
      [where I = "\<lambda>dat. distinct (map fst dat) \<and> (\<forall>p \<in> set dat. full_schedule (snd p))"])
     (simp, rule parse_row_inv [OF assms])

lemma full_schedule_entries:
  assumes "full_schedule s"
  shows "dom s = set DAYS_ORDER"
    and "\<forall>d \<in> set DAYS_ORDER. \<exists>ps. s d = Some ps \<and> dom ps = {1..7}
          \<and> (\<forall>q \<in> {1..7}. \<exists>v. ps q = Some v \<and> decimal_code v)"
    and "card {(d, q). \<exists>ps. s d = Some ps \<and> q \<in> dom ps} = 35"
    and "decimal_codes s"
proof -
  show d: "dom s = set DAYS_ORDER" using assms by (simp add: full_schedule_def)
  show e: "\<forall>d \<in> set DAYS_ORDER. \<exists>ps. s d = Some ps \<and> dom ps = {1..7}
          \<and> (\<forall>q \<in> {1..7}. \<exists>v. ps q = Some v \<and> decimal_code v)"
  proof
    fix x assume "x \<in> set DAYS_ORDER"
    with d obtain ps where ps: "s x = Some ps" by auto
    with assms have dp: "dom ps = {1..7}" and v: "\<forall>p v. ps p = Some v \<longrightarrow> decimal_code v"
      by (auto simp: full_schedule_def)
    have "\<exists>v. ps q = Some v \<and> decimal_code v" if "q \<in> {1..7}" for q
    proof -
      from that dp have "q \<in> dom ps" by simp
      then obtain v where "ps q = Some v" by blast
      with v show ?thesis by auto
    qed
    with ps dp show "\<exists>ps. s x = Some ps \<and> dom ps = {1..7}
          \<and> (\<forall>q \<in> {1..7}. \<exists>v. ps q = Some v \<and> decimal_code v)" by blast
  qed
  have "{(d, q). \<exists>ps. s d = Some ps \<and> q \<in> dom ps} = set DAYS_ORDER \<times> {1..7}"
  proof -
    have "x \<in> set DAYS_ORDER \<and> q \<in> {1..7}" if "s x = Some ps" "q \<in> dom ps" for x q ps
    proof -
      from that(1) assms have "dom ps = {1..7}" unfolding full_schedule_def by blast
      moreover from that(1) d have "x \<in> set DAYS_ORDER" by auto
      ultimately show ?thesis using that(2) by simp
    qed
    moreover have "\<exists>ps. s x = Some ps \<and> q \<in> dom ps"
      if "x \<in> set DAYS_ORDER" "q \<in> {1..7}" for x q
    proof -
      from e that(1) obtain ps where "s x = Some ps" "dom ps = {1..7}" by blast
      with that(2) show ?thesis by auto
    qed
    ultimately show ?thesis by blast
  qed
  moreover have "card (set DAYS_ORDER) = 5"
    using distinct_DAYS_ORDER by (simp add: distinct_card DAYS_ORDER_def)
  ultimately show "card {(d, q). \<exists>ps. s d = Some ps \<and> q \<in> dom ps} = 35"
    by (simp add: card_cartesian_product)
  show "decimal_codes s"
    unfolding decimal_codes_def list_all_iff
  proof (intro ballI)
    fix x q assume "x \<in> set DAYS_ORDER" "q \<in> set [1..7]"
    with e obtain ps v where "s x = Some ps" "ps q = Some v" "decimal_code v"
      by (metis set_upto)
    then show "decimal_code (periods_get (day_map_get s x) q)"
      by (simp add: day_map_get_def periods_get_def)
  qed
qed

lemma example_sheet_max_column: "attr_or_0 (max_column example_sheet) = 2"
  by (simp add: example_sheet_def FakeWorksheet_def attr_or_0_def)

lemma upto_1_2: "[1..2] = [1, 2::int]"
  by (simp add: upto_rec1)

lemma strip_first_day: "strip [50900] = [50900]"
  by (simp add: strip_def lstrip_def rstrip_def isspace_def)

lemma example_sheet_header:
  "cell_value example_sheet 2 1 = NoneValue" "cell_value example_sheet 2 2 = Str [50900]"
  by (simp_all add: example_sheet_def FakeWorksheet_def py_index_def)

lemma example_sheet_label:
  "list_ex (weekday_label example_sheet 2) [1..attr_or_0 (max_column example_sheet)]"
  by (simp add: example_sheet_max_column upto_1_2 weekday_label_def example_sheet_header
      strip_first_day DAYS_ORDER_def)

lemma example_sheet_blocks:
  "detect_day_blocks example_sheet = Inr [\<lparr>day = [50900], start_col = 2\<rparr>]"
  by (simp add: detect_day_blocks_eq example_sheet_label)
     (simp add: example_sheet_max_column upto_1_2 detect_column_def example_sheet_header Let_def
      strip_first_day DAYS_ORDER_def)

lemma empty_sheet_label:
  "\<not> list_ex (weekday_label empty_sheet 2) [1..attr_or_0 (max_column empty_sheet)]"
  by (simp add: empty_sheet_def FakeWorksheet_def attr_or_0_def)

section \<open>Teacher names and rows of one teacher\<close>












section \<open>The newline forms of a cell\<close>

lemma CR_LF [simp]: "CR \<noteq> LF" "LF \<noteq> CR"
  by (simp_all add: CR_def LF_def)

lemma replace_artifact_prefix:
  "replace x000D_LF [LF] (x000D_LF @ s) = LF # replace x000D_LF [LF] s"
  by (simp add: x000D_LF_def)

lemma replace_artifact_other:
  "\<not> startswith (c # s) x000D_LF \<Longrightarrow>
   replace x000D_LF [LF] (c # s) = c # replace x000D_LF [LF] s"
  by (auto simp: startswith_def x000D_LF_def)

lemma replace_artifact_hd:
  assumes "\<not> startswith s [LF]" and "\<not> startswith s x000D_LF"
  shows "\<not> startswith (replace x000D_LF [LF] s) [LF]"
proof (cases s)
  case Nil
  then show ?thesis by (simp add: startswith_def x000D_LF_def)
next
  case (Cons c cs)
  with assms(2) have "replace x000D_LF [LF] s = c # replace x000D_LF [LF] cs"
    by (simp add: replace_artifact_other del: replace.simps)
  with assms(1) Cons show ?thesis by (simp add: startswith_def)
qed

lemma replace_crlf_other:
  "c \<noteq> CR \<Longrightarrow> replace [CR, LF] [LF] (c # s) = c # replace [CR, LF] [LF] s"
  by simp

lemma replace_crlf_pair:
  "replace [CR, LF] [LF] (CR # LF # s) = LF # replace [CR, LF] [LF] s"
  by simp

lemma replace_crlf_lone:
  "\<not> startswith s [LF] \<Longrightarrow> replace [CR, LF] [LF] (CR # s) = CR # replace [CR, LF] [LF] s"
  by (cases s) (auto simp: startswith_def)

lemma replace_cr:
  "replace [CR] [LF] (c # s) = (if c = CR then LF else c) # replace [CR] [LF] s"
  by simp

lemma normalize_cell_text_Nil: "normalize_cell_text [] = []"
  by (simp add: normalize_cell_text_def x000D_LF_def)

lemma normalize_cell_text_artifact:
  "normalize_cell_text (x000D_LF @ s) = LF # normalize_cell_text s"
  by (simp add: normalize_cell_text_def Let_def replace_artifact_prefix replace_crlf_other
      replace_cr del: replace.simps)

lemma CR_not_artifact: "\<not> startswith (CR # s) x000D_LF"
  by (simp add: startswith_def x000D_LF_def CR_def)

lemma replace_artifact_CR: "replace x000D_LF [LF] (CR # s) = CR # replace x000D_LF [LF] s"
  using CR_not_artifact by (rule replace_artifact_other)

lemma replace_artifact_LF: "replace x000D_LF [LF] (LF # s) = LF # replace x000D_LF [LF] s"
  by (rule replace_artifact_other) (simp add: startswith_def x000D_LF_def LF_def)

lemma LF_not_artifact: "\<not> startswith (LF # s) x000D_LF"
  by (simp add: startswith_def x000D_LF_def LF_def)

lemma normalize_cell_text_crlf:
  "normalize_cell_text (CR # LF # s) = LF # normalize_cell_text s"
  by (simp add: normalize_cell_text_def Let_def replace_artifact_CR replace_artifact_LF
      replace_crlf_pair replace_cr del: replace.simps)

lemma normalize_cell_text_cr_artifact:
  "normalize_cell_text (CR # x000D_LF @ s) = LF # normalize_cell_text s"
  by (simp add: normalize_cell_text_def Let_def replace_artifact_CR
      replace_artifact_prefix replace_crlf_pair replace_cr del: replace.simps)

lemma normalize_cell_text_cr:
  assumes "\<not> startswith s [LF]" and "\<not> startswith s x000D_LF"
  shows "normalize_cell_text (CR # s) = LF # normalize_cell_text s"
proof -
  have "\<not> startswith (replace x000D_LF [LF] s) [LF]"
    using assms by (rule replace_artifact_hd)
  then have "replace [CR, LF] [LF] (CR # replace x000D_LF [LF] s) =
      CR # replace [CR, LF] [LF] (replace x000D_LF [LF] s)"
    by (rule replace_crlf_lone)
  then show ?thesis
    by (simp add: normalize_cell_text_def Let_def replace_artifact_CR
        replace_cr del: replace.simps)
qed

lemma normalize_cell_text_other:
  assumes "c \<noteq> CR" and "\<not> startswith (c # s) x000D_LF"
  shows "normalize_cell_text (c # s) = c # normalize_cell_text s"
  using assms
  by (simp add: normalize_cell_text_def Let_def replace_artifact_other replace_crlf_other
      replace_cr del: replace.simps)

lemma first_line_whole: "LF \<notin> set a \<Longrightarrow> first_line a = a"
  by (induction a) (auto simp: first_line_def)

lemma first_line_split: "LF \<notin> set a \<Longrightarrow> first_line (a @ LF # b) = a"
  by (induction a) (auto simp: first_line_def)

lemmas cell_eval =
  parse_cell_to_class_def normalize_cell_text_def first_line_def match_leading_digits_def
  x000D_LF_def LF_def CR_def isspace_def isdecimal_def decimal_value_def decimal_zeros_def
  startswith_def

section \<open>Two rows of one teacher\<close>











section \<open>The claims\<close>

text \<open>
  C4. For every worksheet whose day blocks the locator finds, the builder raises nothing,
  and the schedule of every teacher it returns has exactly the five days as keys and,
  for each day, exactly the periods 1 to 7: 35 entries, each \<^verbatim>\<open>None\<close> or a non-empty string
  of decimal digits, whatever blocks were located and whatever the cells hold. (A day
  whose block was not located keeps its seven \<^verbatim>\<open>None\<close>.)
\<close>

theorem parse_teacher_rows_full:
  assumes "detect_day_blocks sh = Inr bl"
  shows "\<exists>dat. parse_teacher_rows sh bl = Inr dat \<and> distinct (map fst dat)
     \<and> (\<forall>p \<in> set dat.
          dom (snd p) = set DAYS_ORDER
        \<and> (\<forall>d \<in> set DAYS_ORDER. \<exists>ps. snd p d = Some ps \<and> dom ps = {1..7}
             \<and> (\<forall>q \<in> {1..7}. \<exists>v. ps q = Some v \<and> decimal_code v))
        \<and> card {(d, q). \<exists>ps. snd p d = Some ps \<and> q \<in> dom ps} = 35
        \<and> decimal_codes (snd p))"
proof -
  from detect_day_blocks_days [OF assms] have "\<forall>b \<in> set bl. day b \<in> set DAYS_ORDER"
    by auto
  from parse_teacher_rows_inv [OF this, of sh]
  obtain dat where "parse_teacher_rows sh bl = Inr dat" "distinct (map fst dat)"
    "\<forall>p \<in> set dat. full_schedule (snd p)" by blast
  then show ?thesis
    using full_schedule_entries by (intro exI [of _ dat]) simp
qed

theorem parse_teacher_rows_full_witness:
  "detect_day_blocks example_sheet = Inr [\<lparr>day = [50900], start_col = 2\<rparr>]
   \<and> (\<exists>dat. parse_teacher_rows example_sheet [\<lparr>day = [50900], start_col = 2\<rparr>] = Inr dat
     \<and> distinct (map fst dat)
     \<and> (\<forall>p \<in> set dat.
          dom (snd p) = set DAYS_ORDER
        \<and> (\<forall>d \<in> set DAYS_ORDER. \<exists>ps. snd p d = Some ps \<and> dom ps = {1..7}
             \<and> (\<forall>q \<in> {1..7}. \<exists>v. ps q = Some v \<and> decimal_code v))
        \<and> card {(d, q). \<exists>ps. snd p d = Some ps \<and> q \<in> dom ps} = 35
        \<and> decimal_codes (snd p)))"
  using example_sheet_blocks parse_teacher_rows_full [OF example_sheet_blocks]
  by (intro conjI)

text \<open>
  C5. The locator raises its \<^verbatim>\<open>ParseError\<close> (the layout error of the specification), and
  returns nothing, exactly when no cell of row 2, in the columns 1 to \<^verbatim>\<open>max_column\<close>, is a
  string equal to a weekday label once stripped; when one is, it does not raise and
  returns a non-empty list of blocks. It raises no other error.
\<close>

theorem detect_day_blocks_raises_iff:
  "(detect_day_blocks sh = Inl (ParseError no_day_blocks) \<longleftrightarrow>
      \<not> list_ex (weekday_label sh 2) [1..attr_or_0 (max_column sh)])
   \<and> (list_ex (weekday_label sh 2) [1..attr_or_0 (max_column sh)] \<longleftrightarrow>
      (\<exists>bs. detect_day_blocks sh = Inr bs \<and> bs \<noteq> []))
   \<and> (\<forall>e. detect_day_blocks sh = Inl e \<longrightarrow> e = ParseError no_day_blocks)"
proof -
  have "fst (fold (detect_column sh 2) [1..attr_or_0 (max_column sh)] ([], {})) \<noteq> []"
    if "list_ex (weekday_label sh 2) [1..attr_or_0 (max_column sh)]"
    using that fold_detect_column_empty [of sh 2 "[1..attr_or_0 (max_column sh)]"] by simp
  then show ?thesis by (auto simp: detect_day_blocks_eq)
qed

theorem detect_day_blocks_raises_iff_witness:
  "list_ex (weekday_label example_sheet 2) [1..attr_or_0 (max_column example_sheet)]
   \<and> (\<exists>bs. detect_day_blocks example_sheet = Inr bs \<and> bs \<noteq> [])
   \<and> \<not> list_ex (weekday_label empty_sheet 2) [1..attr_or_0 (max_column empty_sheet)]
   \<and> detect_day_blocks empty_sheet = Inl (ParseError no_day_blocks)"
proof -
  from example_sheet_label detect_day_blocks_raises_iff [of example_sheet]
  have "\<exists>bs. detect_day_blocks example_sheet = Inr bs \<and> bs \<noteq> []" by blast
  moreover from empty_sheet_label detect_day_blocks_raises_iff [of empty_sheet]
  have "detect_day_blocks empty_sheet = Inl (ParseError no_day_blocks)" by blast
  ultimately show ?thesis using example_sheet_label empty_sheet_label by blast
qed

text \<open>
  C6. The Cell Normalizer is total: \<open>parse_cell_to_class\<close> has a value for every cell value
  and no error branch (\<^verbatim>\<open>str.replace\<close>, \<^verbatim>\<open>str.split\<close>, \<^verbatim>\<open>re.match\<close> and \<^verbatim>\<open>group\<close> after a
  match raise nothing on a \<^verbatim>\<open>str\<close>). Its value is \<^verbatim>\<open>None\<close> or a non-empty string of decimal
  digits, and a value that is not a string gives \<^verbatim>\<open>None\<close>. For a string the result is the
  leading digit run of the first line of the normalized text, where
  \<^item> the normalized text is read off the string from the left: the carriage-return
    artifact \<^verbatim>\<open>_x000D_\<close> with its line feed becomes one line feed; a carriage return becomes
    a line feed, together with the line feed or the artifact that follows it, if one
    does; every other character is kept. No carriage return is left;
  \<^item> the first line is the text before the first line feed, the whole text when it has
    none;
  \<^item> the leading digit run is the longest run of decimal digits after the whitespace
    that starts the line, and the result is \<^verbatim>\<open>None\<close> when that run is empty.
\<close>

theorem parse_cell_to_class_total:
  "(case parse_cell_to_class v of
      None \<Rightarrow> True
    | Some code \<Rightarrow> code \<noteq> [] \<and> list_all isdecimal code)
   \<and> parse_cell_to_class NoneValue = None
   \<and> parse_cell_to_class (Other r) = None
   \<and> parse_cell_to_class (Str s) = match_leading_digits (first_line (normalize_cell_text s))
   \<and> normalize_cell_text [] = []
   \<and> normalize_cell_text (x000D_LF @ s) = LF # normalize_cell_text s
   \<and> normalize_cell_text (CR # LF # s) = LF # normalize_cell_text s
   \<and> normalize_cell_text (CR # x000D_LF @ s) = LF # normalize_cell_text s
   \<and> (\<not> startswith s [LF] \<and> \<not> startswith s x000D_LF
      \<longrightarrow> normalize_cell_text (CR # s) = LF # normalize_cell_text s)
   \<and> (c \<noteq> CR \<and> \<not> startswith (c # s) x000D_LF
      \<longrightarrow> normalize_cell_text (c # s) = c # normalize_cell_text s)
   \<and> CR \<notin> set (normalize_cell_text s)
   \<and> (LF \<notin> set a \<longrightarrow> first_line a = a \<and> first_line (a @ LF # t) = a)
   \<and> LF \<notin> set (first_line t)
   \<and> (list_all isspace ws \<and> ds \<noteq> [] \<and> list_all isdecimal ds
        \<and> (rest = [] \<or> \<not> isdecimal (hd rest))
      \<longrightarrow> match_leading_digits (ws @ ds @ rest) = Some ds)
   \<and> (list_all isspace ws
        \<and> (rest = [] \<or> \<not> isdecimal (hd rest) \<and> \<not> isspace (hd rest))
      \<longrightarrow> match_leading_digits (ws @ rest) = None)"
proof -
  have range: "case parse_cell_to_class v of
      None \<Rightarrow> True
    | Some code \<Rightarrow> code \<noteq> [] \<and> list_all isdecimal code"
    by (cases v) (auto simp: parse_cell_to_class_def split: option.splits
        dest: match_leading_digits_range)
  have lf: "LF \<notin> set (first_line t)"
    by (auto simp: first_line_def dest: set_takeWhileD)
  have p: "parse_cell_to_class NoneValue = None" "parse_cell_to_class (Other r) = None"
    "parse_cell_to_class (Str s) = match_leading_digits (first_line (normalize_cell_text s))"
    by (simp_all add: parse_cell_to_class_def)
  have n4: "\<not> startswith s [LF] \<and> \<not> startswith s x000D_LF
      \<longrightarrow> normalize_cell_text (CR # s) = LF # normalize_cell_text s"
    using normalize_cell_text_cr [of s] by blast
  have n5: "c \<noteq> CR \<and> \<not> startswith (c # s) x000D_LF
      \<longrightarrow> normalize_cell_text (c # s) = c # normalize_cell_text s"
    using normalize_cell_text_other [of c s] by blast
  have f: "LF \<notin> set a \<longrightarrow> first_line a = a \<and> first_line (a @ LF # t) = a"
    using first_line_whole [of a] first_line_split [of a t] by blast
  have m1: "list_all isspace ws \<and> ds \<noteq> [] \<and> list_all isdecimal ds
        \<and> (rest = [] \<or> \<not> isdecimal (hd rest))
      \<longrightarrow> match_leading_digits (ws @ ds @ rest) = Some ds"
    by (simp add: match_leading_digits_Some)
  have m2: "list_all isspace ws
        \<and> (rest = [] \<or> \<not> isdecimal (hd rest) \<and> \<not> isspace (hd rest))
      \<longrightarrow> match_leading_digits (ws @ rest) = None"
    by (simp add: match_leading_digits_None)
  from range p normalize_cell_text_Nil normalize_cell_text_artifact [of s]
    normalize_cell_text_crlf [of s] normalize_cell_text_cr_artifact [of s] n4 n5
    CR_notin_normalize_cell_text [of s] f lf m1 m2
  show ?thesis by (intro conjI)
qed

text \<open>The cell \<^verbatim>\<open>"12\r34"\<close> gives \<^verbatim>\<open>"12"\<close>, the cell \<^verbatim>\<open>"\n1"\<close> gives \<^verbatim>\<open>None\<close>, the cell
  \<^verbatim>\<open>"1_x000D_\n2"\<close> gives \<^verbatim>\<open>"1"\<close> and the cell \<^verbatim>\<open>" 101\r\n7A"\<close> gives \<^verbatim>\<open>"101"\<close>.\<close>

theorem parse_cell_to_class_total_witness:
  "parse_cell_to_class (Str [49, 50, 13, 51, 52]) = Some [49, 50]
   \<and> parse_cell_to_class (Str [10, 49]) = None
   \<and> parse_cell_to_class (Str ([49] @ x000D_LF @ [50])) = Some [49]
   \<and> parse_cell_to_class (Str [32, 49, 48, 49, 13, 10, 55, 65]) = Some [49, 48, 49]
   \<and> \<not> startswith [51, 52] [LF] \<and> \<not> startswith [51, 52] x000D_LF
   \<and> normalize_cell_text (CR # [51, 52]) = LF # normalize_cell_text [51, 52]
   \<and> 49 \<noteq> CR \<and> \<not> startswith (49 # [51, 52]) x000D_LF
   \<and> normalize_cell_text (49 # [51, 52]) = 49 # normalize_cell_text [51, 52]
   \<and> LF \<notin> set [49, 50]
   \<and> first_line [49, 50] = [49, 50] \<and> first_line ([49, 50] @ LF # [51]) = [49, 50]
   \<and> list_all isspace [32] \<and> [49, 48, 49] \<noteq> [] \<and> list_all isdecimal [49, 48, 49]
   \<and> \<not> isdecimal (hd [13, 10, 55, 65])
   \<and> match_leading_digits ([32] @ [49, 48, 49] @ [13, 10, 55, 65]) = Some [49, 48, 49]
   \<and> \<not> isdecimal (hd [120, 49]) \<and> \<not> isspace (hd [120, 49])
   \<and> match_leading_digits ([32] @ [120, 49]) = None"
  using parse_cell_to_class_total
    [where v = "Str [49, 50, 13, 51, 52]" and s = "[51, 52]" and c = 49 and a = "[49, 50]"
       and t = "[51]" and ws = "[32]" and ds = "[49, 48, 49]" and rest = "[13, 10, 55, 65]"]
    parse_cell_to_class_total
    [where v = "Str [10, 49]" and s = "[51, 52]" and c = 49 and a = "[49, 50]"
       and t = "[51]" and ws = "[32]" and ds = "[49]" and rest = "[120, 49]"]
  by (simp add: cell_eval)



text \<open>
  C1. The claim is that a configuration outside its constraints is rejected with a
  \<^verbatim>\<open>ConfigurationError\<close> before any teacher is scanned. The code has no such error and
  no check of the configuration: with no target period, \<open>min_days = 0\<close> and a consecutive
  length of 8, \<^verbatim>\<open>analyze_patterns\<close> scans the teacher and returns its two dictionaries,
  Pattern B triggered on the five days.
\<close>

theorem configuration_not_checked:
  "analyze_patterns [([65], empty_schedule)] 8 [] 0 False =
     Inr ([([65], [PatternB_message [65] 5 0 []
                    [50900, 44, 54868, 44, 49688, 44, 47785, 44, 44552]])],
          [([65], \<lparr>patternA = [],
                   patternB = \<lparr>triggered = True,
                      days = [[50900], [54868], [49688], [47785], [44552]]\<rparr>,
                   patternC = \<lparr>triggered = False, days = []\<rparr>\<rparr>)])"
proof -
  have "\<forall>p \<in> set [([65], empty_schedule)]. formats (snd p) 8"
    by (simp add: formats_above_7)
  moreover have "distinct (map fst [([65::nat], empty_schedule)])" by simp
  ultimately have "analyze_patterns [([65], empty_schedule)] 8 [] 0 False =
     Inr (map (\<lambda>p. (fst p, messages_of (fst p) (snd p) 8 [] 0 False))
            (filter (\<lambda>p. messages_of (fst p) (snd p) 8 [] 0 False \<noteq> []) [([65], empty_schedule)]),
          map (\<lambda>p. (fst p, summary_of (snd p) 8 [] 0 False)) [([65], empty_schedule)])"
    by (rule analyze_patterns_eq)
  then show ?thesis
    by (simp add: messages_of_def summary_of_def a_matches_empty qualifying_days_Nil
        b_message_def DAYS_ORDER_def)
qed

text \<open>
  C1, as the code has it: \<^verbatim>\<open>analyze_patterns\<close> takes every configuration. Whatever the
  consecutive length, the target periods (none included), the number of days and the flag
  are, it raises nothing and returns its result, for schedules whose class codes are
  strings of decimal digits.
\<close>

theorem no_configuration_check:
  assumes "\<forall>p \<in> set dat. decimal_codes (snd p)"
  shows "\<exists>r. analyze_patterns dat n tp m c7 = Inr r"
proof -
  from assms have "\<forall>p \<in> set dat. formats (snd p) n"
    by (simp add: decimal_codes_formats)
  then have "\<not> isl (analyze_patterns dat n tp m c7)"
    by (rule analyze_patterns_returns)
  then show ?thesis by (cases "analyze_patterns dat n tp m c7") auto
qed

theorem no_configuration_check_witness:
  "decimal_codes example_schedule
   \<and> (\<exists>r. analyze_patterns example_teachers 8 [] 0 True = Inr r)"
  using example_schedule_decimal no_configuration_check [OF example_decimal, of 8 "[]" 0 True]
  by (intro conjI)

text \<open>
  C2. For every teacher of the input, Pattern B emits its finding (its message, and
  \<^verbatim>\<open>triggered\<close> in the summary, with the qualifying days) if and only if the number of
  qualifying days is at least \<open>min_days\<close>: exactly \<open>min_days\<close> qualifying days trigger it,
  \<open>min_days - 1\<close> do not. A day qualifies when every target period holds a class code,
  whatever the codes are. The class codes are strings of decimal digits, as the builder
  gives them, so that the run returns; the statement holds for every list of target
  periods, the empty one included.
\<close>

theorem pattern_b_iff:
  assumes "distinct (map fst dat)" and "\<forall>p \<in> set dat. decimal_codes (snd p)"
    and "(t, dm) \<in> set dat"
  shows "\<exists>msgs summ s. analyze_patterns dat n tp m c7 = Inr (msgs, summ)
     \<and> map_of summ t = Some s
     \<and> (triggered (patternB s) \<longleftrightarrow> m \<le> int (length (qualifying_days dm tp)))
     \<and> (triggered (patternB s) \<longrightarrow> days (patternB s) = qualifying_days dm tp)
     \<and> filter is_PatternB (messages_for msgs t) =
         (if m \<le> int (length (qualifying_days dm tp)) then [b_message t dm tp m] else [])
     \<and> (int (length (qualifying_days dm tp)) = m \<longrightarrow> triggered (patternB s))
     \<and> (int (length (qualifying_days dm tp)) = m - 1 \<longrightarrow> \<not> triggered (patternB s))
     \<and> (\<forall>d. d \<in> set (qualifying_days dm tp) \<longleftrightarrow>
           d \<in> set DAYS_ORDER \<and> (\<forall>p \<in> set tp. periods_get (day_map_get dm d) p \<noteq> None))"
proof -
  from assms(2) have "\<forall>p \<in> set dat. formats (snd p) n"
    by (simp add: decimal_codes_formats)
  from analyze_patterns_result [OF this assms(1), of tp m c7] assms(3)
  obtain msgs summ where r: "analyze_patterns dat n tp m c7 = Inr (msgs, summ)"
    and s: "map_of summ t = Some (summary_of dm n tp m c7)"
    and ms: "messages_for msgs t = messages_of t dm n tp m c7"
    by blast
  show ?thesis
    apply (rule exI [of _ msgs], rule exI [of _ summ],
        rule exI [of _ "summary_of dm n tp m c7"])
    apply (simp add: r s ms is_PatternB_messages_of qualifying_days_iff)
    apply (simp add: summary_of_def)
    done
qed

theorem pattern_b_iff_witness:
  "distinct (map fst example_teachers)
   \<and> decimal_codes example_schedule
   \<and> ([65], example_schedule) \<in> set example_teachers
   \<and> (\<exists>msgs summ s. analyze_patterns example_teachers 2 [1, 2] 1 False = Inr (msgs, summ)
     \<and> map_of summ [65] = Some s
     \<and> (triggered (patternB s) \<longleftrightarrow> 1 \<le> int (length (qualifying_days example_schedule [1, 2])))
     \<and> (triggered (patternB s) \<longrightarrow> days (patternB s) = qualifying_days example_schedule [1, 2])
     \<and> filter is_PatternB (messages_for msgs [65]) =
         (if 1 \<le> int (length (qualifying_days example_schedule [1, 2]))
          then [b_message [65] example_schedule [1, 2] 1] else [])
     \<and> (int (length (qualifying_days example_schedule [1, 2])) = 1 \<longrightarrow> triggered (patternB s))
     \<and> (int (length (qualifying_days example_schedule [1, 2])) = 1 - 1
          \<longrightarrow> \<not> triggered (patternB s))
     \<and> (\<forall>d. d \<in> set (qualifying_days example_schedule [1, 2]) \<longleftrightarrow>
           d \<in> set DAYS_ORDER
           \<and> (\<forall>p \<in> set [1, 2]. periods_get (day_map_get example_schedule d) p \<noteq> None)))"
  using example_distinct example_schedule_decimal example_member
    pattern_b_iff [OF example_distinct example_decimal example_member, of 2 "[1, 2]" 1 False]
  by (intro conjI)

text \<open>
  C3. For every teacher and every day, the Pattern-A list of the summary holds
  \<open>(day, s, e, code)\<close> exactly for the windows of \<open>n\<close> consecutive periods from \<open>s\<close> to
  \<open>e = s + n - 1 \<le> 7\<close> in which every period holds that same class code (so none is
  \<^verbatim>\<open>None\<close>). No tuple is listed twice, windows with different start periods are different
  tuples and each is listed, and the Pattern-A messages of the teacher are those of the
  list, in its order. The consecutive length is at least 1, as the configuration asks.
\<close>

theorem pattern_a_windows:
  assumes "distinct (map fst dat)" and "\<forall>p \<in> set dat. decimal_codes (snd p)"
    and "(t, dm) \<in> set dat" and "1 \<le> n"
  shows "\<exists>msgs summ s. analyze_patterns dat n tp m c7 = Inr (msgs, summ)
     \<and> map_of summ t = Some s
     \<and> (\<forall>d st e c. (d, st, e, c) \<in> set (patternA s) \<longleftrightarrow>
           d \<in> set DAYS_ORDER \<and> 1 \<le> st \<and> e = st + n - 1 \<and> e \<le> 7
           \<and> (\<forall>p \<in> {st..e}. periods_get (day_map_get dm d) p = Some c))
     \<and> distinct (patternA s)
     \<and> filter is_PatternA (messages_for msgs t) = map (a_message t) (patternA s)"
proof -
  from assms(2) have "\<forall>p \<in> set dat. formats (snd p) n"
    by (simp add: decimal_codes_formats)
  from analyze_patterns_result [OF this assms(1), of tp m c7] assms(3)
  obtain msgs summ where r: "analyze_patterns dat n tp m c7 = Inr (msgs, summ)"
    and s: "map_of summ t = Some (summary_of dm n tp m c7)"
    and ms: "messages_for msgs t = messages_of t dm n tp m c7"
    by blast
  have pa: "patternA (summary_of dm n tp m c7) = a_matches dm n"
    by (simp add: summary_of_def)
  have iff: "(d, st, e, c) \<in> set (a_matches dm n) \<longleftrightarrow>
           d \<in> set DAYS_ORDER \<and> 1 \<le> st \<and> e = st + n - 1 \<and> e \<le> 7
           \<and> (\<forall>p \<in> {st..e}. periods_get (day_map_get dm d) p = Some c)" for d st e c
    using assms(4) by (auto simp: a_matches_iff window_code_Some)
  show ?thesis
    apply (rule exI [of _ msgs], rule exI [of _ summ],
        rule exI [of _ "summary_of dm n tp m c7"])
    apply (simp only: r s ms pa is_PatternA_messages_of distinct_a_matches iff)
    apply simp
    done
qed

theorem pattern_a_windows_witness:
  "distinct (map fst example_teachers)
   \<and> decimal_codes example_schedule
   \<and> ([65], example_schedule) \<in> set example_teachers
   \<and> (1::int) \<le> 2
   \<and> (\<exists>msgs summ s. analyze_patterns example_teachers 2 [1, 2] 1 False = Inr (msgs, summ)
     \<and> map_of summ [65] = Some s
     \<and> (\<forall>d st e c. (d, st, e, c) \<in> set (patternA s) \<longleftrightarrow>
           d \<in> set DAYS_ORDER \<and> 1 \<le> st \<and> e = st + 2 - 1 \<and> e \<le> 7
           \<and> (\<forall>p \<in> {st..e}. periods_get (day_map_get example_schedule d) p = Some c))
     \<and> distinct (patternA s)
     \<and> filter is_PatternA (messages_for msgs [65]) = map (a_message [65]) (patternA s))"
proof -
  have h: "(1::int) \<le> 2" by simp
  from example_distinct example_schedule_decimal example_member h
    pattern_a_windows [OF example_distinct example_decimal example_member h,
      of "[1, 2]" 1 False]
  show ?thesis by (intro conjI)
qed

text \<open>
  C8. The Pattern Analyzer never changes its input. The frame of a run holds the
  dictionary the analyzer was given; every step reads the teachers and their schedules
  from it (\<^verbatim>\<open>items()\<close> and \<^verbatim>\<open>get\<close>) and writes only the variables of the run. After the run,
  whether it returned or raised, the dictionary in the frame is the one given: every
  teacher, day and period entry is as before.
\<close>

theorem analyze_patterns_reads_only:
  "data (run_analyze_patterns dat n tp m c7) = dat"
  by (rule data_run_analyze_patterns)

theorem analyze_patterns_reads_only_witness:
  "data (run_analyze_patterns example_teachers 2 [1, 2] 1 True) = example_teachers"
  using analyze_patterns_reads_only [of example_teachers 2 "[1, 2]" 1 True] by simp

text \<open>
  C9. With an empty list of target periods \<^verbatim>\<open>analyze_patterns\<close> raises nothing: every day
  counts as a matching day of Pattern B, and whenever \<open>min_days \<le> 5\<close> Pattern B is
  triggered for every teacher with the five days, in their order, and its message is
  emitted.
\<close>

theorem empty_target_periods:
  assumes "distinct (map fst dat)" and "\<forall>p \<in> set dat. decimal_codes (snd p)"
    and "m \<le> 5"
  shows "\<exists>msgs summ. analyze_patterns dat n [] m c7 = Inr (msgs, summ)
     \<and> (\<forall>p \<in> set dat. \<exists>s. map_of summ (fst p) = Some s
          \<and> patternB s = \<lparr>triggered = True, days = DAYS_ORDER\<rparr>
          \<and> filter is_PatternB (messages_for msgs (fst p)) = [b_message (fst p) (snd p) [] m])"
proof -
  from assms(2) have "\<forall>p \<in> set dat. formats (snd p) n"
    by (simp add: decimal_codes_formats)
  from analyze_patterns_result [OF this assms(1), of "[]" m c7]
  obtain msgs summ where r: "analyze_patterns dat n [] m c7 = Inr (msgs, summ)"
    and each: "\<And>t dm. (t, dm) \<in> set dat \<Longrightarrow>
          map_of summ t = Some (summary_of dm n [] m c7)
        \<and> messages_for msgs t = messages_of t dm n [] m c7"
    by blast
  have five: "length DAYS_ORDER = 5" by (simp add: DAYS_ORDER_def)
  have "\<exists>s. map_of summ (fst p) = Some s
          \<and> patternB s = \<lparr>triggered = True, days = DAYS_ORDER\<rparr>
          \<and> filter is_PatternB (messages_for msgs (fst p)) = [b_message (fst p) (snd p) [] m]"
    if "p \<in> set dat" for p
    using each [of "fst p" "snd p"] that assms(3)
    by (simp add: is_PatternB_messages_of qualifying_days_Nil summary_of_def five)
  with r show ?thesis by blast
qed

theorem empty_target_periods_witness:
  "distinct (map fst example_teachers)
   \<and> decimal_codes example_schedule
   \<and> (3::int) \<le> 5
   \<and> (\<exists>msgs summ. analyze_patterns example_teachers 2 [] 3 False = Inr (msgs, summ)
     \<and> (\<forall>p \<in> set example_teachers. \<exists>s. map_of summ (fst p) = Some s
          \<and> patternB s = \<lparr>triggered = True, days = DAYS_ORDER\<rparr>
          \<and> filter is_PatternB (messages_for msgs (fst p)) = [b_message (fst p) (snd p) [] 3]))"
proof -
  have h: "(3::int) \<le> 5" by simp
  from example_distinct example_schedule_decimal h
    empty_target_periods [OF example_distinct example_decimal h, of 2 False]
  show ?thesis by (intro conjI)
qed

text \<open>
  C10. With a consecutive length above 7 no start period satisfies
  \<open>s + n - 1 \<le> 7\<close>: \<^verbatim>\<open>analyze_patterns\<close> raises nothing and returns, the Pattern-A list
  of every teacher is empty, and no message of a teacher is a Pattern-A message. (The
  names of the teachers are the keys of a dictionary, so they are distinct.)
\<close>

theorem consecutive_len_above_7:
  assumes "7 < n" and "distinct (map fst dat)"
  shows "\<exists>msgs summ. analyze_patterns dat n tp m c7 = Inr (msgs, summ)
     \<and> (\<forall>p \<in> set dat. \<exists>s. map_of summ (fst p) = Some s \<and> patternA s = []
          \<and> filter is_PatternA (messages_for msgs (fst p)) = [])"
proof -
  from assms(1) have "\<forall>p \<in> set dat. formats (snd p) n"
    by (simp add: formats_above_7)
  from analyze_patterns_result [OF this assms(2), of tp m c7]
  obtain msgs summ where r: "analyze_patterns dat n tp m c7 = Inr (msgs, summ)"
    and each: "\<And>t dm. (t, dm) \<in> set dat \<Longrightarrow>
          map_of summ t = Some (summary_of dm n tp m c7)
        \<and> messages_for msgs t = messages_of t dm n tp m c7"
    by blast
  have "\<exists>s. map_of summ (fst p) = Some s \<and> patternA s = []
          \<and> filter is_PatternA (messages_for msgs (fst p)) = []" if "p \<in> set dat" for p
    using each [of "fst p" "snd p"] that assms(1)
    by (simp add: is_PatternA_messages_of a_matches_empty summary_of_def)
  with r show ?thesis by blast
qed

theorem consecutive_len_above_7_witness:
  "(7::int) < 8 \<and> distinct (map fst example_teachers)
   \<and> (\<exists>msgs summ. analyze_patterns example_teachers 8 [1, 2] 1 True = Inr (msgs, summ)
     \<and> (\<forall>p \<in> set example_teachers. \<exists>s. map_of summ (fst p) = Some s \<and> patternA s = []
          \<and> filter is_PatternA (messages_for msgs (fst p)) = []))"
proof -
  have h: "(7::int) < 8" by simp
  from h example_distinct
    consecutive_len_above_7 [OF h example_distinct, of "[1, 2]" 1 True]
  show ?thesis by (intro conjI)
qed

end
